theory Spec2Isabelle
  imports Main
begin

section \<open>Python strings\<close>

text \<open>
  A Python \<open>str\<close> is a sequence of Unicode code points and \<open>len\<close> counts code points, so a
  string is modelled as a list of code points (natural numbers).  \<open>ustr\<close> turns an Isabelle
  string literal (ASCII) into such a list; characters outside ASCII (the status glyphs, the
  arrow of the task directive) are written as numbers.

  The classes of characters (white space, decimal digits) and the case mapping belong to the
  Python runtime and follow its Unicode tables; the tables written out below are those of
  CPython 3.11 (Unicode 14.0).
\<close>

type_synonym codepoint = nat
type_synonym pystr = "codepoint list"

definition ustr :: "string \<Rightarrow> pystr" where
  "ustr s = map of_char s"

definition in_ranges :: "(codepoint \<times> codepoint) list \<Rightarrow> codepoint \<Rightarrow> bool" where
  "in_ranges rs c = list_ex (\<lambda>(lo, hi). lo \<le> c \<and> c \<le> hi) rs"

text \<open>The code points for which \<open>str.isspace\<close> holds; \<open>str.strip\<close> and \<^verbatim>\<open>\s\<close> use the same set.\<close>

definition py_isspace :: "codepoint \<Rightarrow> bool" where
  "py_isspace c \<longleftrightarrow>
     (9 \<le> c \<and> c \<le> 13) \<or> (28 \<le> c \<and> c \<le> 32) \<or> c = 133 \<or> c = 160 \<or> c = 5760 \<or>
     (8192 \<le> c \<and> c \<le> 8202) \<or> c = 8232 \<or> c = 8233 \<or> c = 8239 \<or> c = 8287 \<or> c = 12288"

definition py_strip :: "pystr \<Rightarrow> pystr" where
  "py_strip s = rev (dropWhile py_isspace (rev (dropWhile py_isspace s)))"

fun startswith :: "pystr \<Rightarrow> pystr \<Rightarrow> bool" where
  "startswith s [] = True"
| "startswith [] (p # ps) = False"
| "startswith (c # s) (p # ps) = (c = p \<and> startswith s ps)"

text \<open>\<open>py_in needle hay\<close> is Python's \<open>needle in hay\<close> on strings.\<close>

fun py_in :: "pystr \<Rightarrow> pystr \<Rightarrow> bool" where
  "py_in needle [] = (needle = [])"
| "py_in needle (c # s) = (startswith (c # s) needle \<or> py_in needle s)"

text \<open>\<open>sep.join(xs)\<close>.\<close>

fun py_join :: "pystr \<Rightarrow> pystr list \<Rightarrow> pystr" where
  "py_join sep [] = []"
| "py_join sep [x] = x"
| "py_join sep (x # y # ys) = x @ sep @ py_join sep (y # ys)"

text \<open>A string between double quotes (code point 34).\<close>

definition quoted :: "string \<Rightarrow> pystr" where
  "quoted s = [34] @ ustr s @ [34]"

text \<open>\<open>s[:n] + "..." if len(s) > n else s\<close>, the truncation used throughout the program.\<close>

definition ellipsis :: "nat \<Rightarrow> pystr \<Rightarrow> pystr" where
  "ellipsis n s = (if length s > n then take n s @ ustr ''...'' else s)"

subsection \<open>Decimal digits\<close>

text \<open>
  The code points of the category Nd, which \<^verbatim>\<open>\d\<close> matches and \<open>int\<close> reads.  They come in
  runs of ten with the zero first, so the value of a digit is its offset in its range modulo
  10.
\<close>

definition decimal_ranges :: "(codepoint \<times> codepoint) list" where
  "decimal_ranges =
     [(48, 57), (1632, 1641), (1776, 1785), (1984, 1993), (2406, 2415), (2534, 2543),
      (2662, 2671), (2790, 2799), (2918, 2927), (3046, 3055), (3174, 3183), (3302, 3311),
      (3430, 3439), (3558, 3567), (3664, 3673), (3792, 3801), (3872, 3881), (4160, 4169),
      (4240, 4249), (6112, 6121), (6160, 6169), (6470, 6479), (6608, 6617), (6784, 6793),
      (6800, 6809), (6992, 7001), (7088, 7097), (7232, 7241), (7248, 7257), (42528, 42537),
      (43216, 43225), (43264, 43273), (43472, 43481), (43504, 43513), (43600, 43609),
      (44016, 44025), (65296, 65305), (66720, 66729), (68912, 68921), (69734, 69743),
      (69872, 69881), (69942, 69951), (70096, 70105), (70384, 70393), (70736, 70745),
      (70864, 70873), (71248, 71257), (71360, 71369), (71472, 71481), (71904, 71913),
      (72016, 72025), (72784, 72793), (73040, 73049), (73120, 73129), (92768, 92777),
      (92864, 92873), (93008, 93017), (120782, 120831), (123200, 123209), (123632, 123641),
      (125264, 125273), (130032, 130041)]"

definition is_decimal :: "codepoint \<Rightarrow> bool" where
  "is_decimal c = in_ranges decimal_ranges c"

fun decimal_in :: "(codepoint \<times> codepoint) list \<Rightarrow> codepoint \<Rightarrow> nat option" where
  "decimal_in [] c = None"
| "decimal_in ((lo, hi) # rs) c =
     (if lo \<le> c \<and> c \<le> hi then Some ((c - lo) mod 10) else decimal_in rs c)"

definition digit_value :: "codepoint \<Rightarrow> nat option" where
  "digit_value c = decimal_in decimal_ranges c"

subsection \<open>\<open>str.lower\<close>\<close>

text \<open>
  \<open>str.lower\<close> maps an ASCII capital to its small letter, U+0130 to the two code points
  U+0069 U+0307, and the other code points that have a lower case by the rules of
  \<open>lower_rules\<close>: a rule \<open>(first, last, step, offset)\<close> moves every \<open>step\<close>-th code point from
  \<open>first\<close> to \<open>last\<close> by \<open>offset\<close>.  The capital sigma U+03A3 becomes the final sigma U+03C2
  when it ends a word, which is when a cased letter stands before it and none after it,
  case-ignorable code points being skipped on both sides, and U+03C3 otherwise.
  \<open>cased_ranges\<close> holds the cased code points that are not case-ignorable.
\<close>

definition ascii_lower :: "codepoint \<Rightarrow> codepoint" where
  "ascii_lower c = (if 65 \<le> c \<and> c \<le> 90 then c + 32 else c)"

definition ascii_upper :: "codepoint \<Rightarrow> codepoint" where
  "ascii_upper c = (if 97 \<le> c \<and> c \<le> 122 then c - 32 else c)"

definition lower_rules :: "(codepoint \<times> codepoint \<times> nat \<times> int) list" where
  "lower_rules =
     [(192, 214, 1, 32), (216, 222, 1, 32), (256, 302, 2, 1), (306, 310, 2, 1),
      (313, 327, 2, 1), (330, 374, 2, 1), (376, 376, 1, - 121), (377, 381, 2, 1),
      (385, 385, 1, 210), (386, 388, 2, 1), (390, 390, 1, 206), (391, 391, 1, 1),
      (393, 394, 1, 205), (395, 395, 1, 1), (398, 398, 1, 79), (399, 399, 1, 202),
      (400, 400, 1, 203), (401, 401, 1, 1), (403, 403, 1, 205), (404, 404, 1, 207),
      (406, 406, 1, 211), (407, 407, 1, 209), (408, 408, 1, 1), (412, 412, 1, 211),
      (413, 413, 1, 213), (415, 415, 1, 214), (416, 420, 2, 1), (422, 422, 1, 218),
      (423, 423, 1, 1), (425, 425, 1, 218), (428, 428, 1, 1), (430, 430, 1, 218),
      (431, 431, 1, 1), (433, 434, 1, 217), (435, 437, 2, 1), (439, 439, 1, 219),
      (440, 440, 1, 1), (444, 444, 1, 1), (452, 452, 1, 2), (453, 453, 1, 1), (455, 455, 1, 2),
      (456, 456, 1, 1), (458, 458, 1, 2), (459, 475, 2, 1), (478, 494, 2, 1), (497, 497, 1, 2),
      (498, 500, 2, 1), (502, 502, 1, - 97)] @
     [(503, 503, 1, - 56), (504, 542, 2, 1), (544, 544, 1, - 130), (546, 562, 2, 1),
      (570, 570, 1, 10795), (571, 571, 1, 1), (573, 573, 1, - 163), (574, 574, 1, 10792),
      (577, 577, 1, 1), (579, 579, 1, - 195), (580, 580, 1, 69), (581, 581, 1, 71),
      (582, 590, 2, 1), (880, 882, 2, 1), (886, 886, 1, 1), (895, 895, 1, 116),
      (902, 902, 1, 38), (904, 906, 1, 37), (908, 908, 1, 64), (910, 911, 1, 63),
      (913, 929, 1, 32), (932, 939, 1, 32), (975, 975, 1, 8), (984, 1006, 2, 1),
      (1012, 1012, 1, - 60), (1015, 1015, 1, 1), (1017, 1017, 1, - 7), (1018, 1018, 1, 1),
      (1021, 1023, 1, - 130), (1024, 1039, 1, 80), (1040, 1071, 1, 32), (1120, 1152, 2, 1),
      (1162, 1214, 2, 1), (1216, 1216, 1, 15), (1217, 1229, 2, 1), (1232, 1326, 2, 1),
      (1329, 1366, 1, 48), (4256, 4293, 1, 7264), (4295, 4295, 1, 7264), (4301, 4301, 1, 7264),
      (5024, 5103, 1, 38864), (5104, 5109, 1, 8), (7312, 7354, 1, - 3008),
      (7357, 7359, 1, - 3008), (7680, 7828, 2, 1), (7838, 7838, 1, - 7615), (7840, 7934, 2, 1),
      (7944, 7951, 1, - 8)] @
     [(7960, 7965, 1, - 8), (7976, 7983, 1, - 8), (7992, 7999, 1, - 8), (8008, 8013, 1, - 8),
      (8025, 8031, 2, - 8), (8040, 8047, 1, - 8), (8072, 8079, 1, - 8), (8088, 8095, 1, - 8),
      (8104, 8111, 1, - 8), (8120, 8121, 1, - 8), (8122, 8123, 1, - 74), (8124, 8124, 1, - 9),
      (8136, 8139, 1, - 86), (8140, 8140, 1, - 9), (8152, 8153, 1, - 8), (8154, 8155, 1, - 100),
      (8168, 8169, 1, - 8), (8170, 8171, 1, - 112), (8172, 8172, 1, - 7),
      (8184, 8185, 1, - 128), (8186, 8187, 1, - 126), (8188, 8188, 1, - 9),
      (8486, 8486, 1, - 7517), (8490, 8490, 1, - 8383), (8491, 8491, 1, - 8262),
      (8498, 8498, 1, 28), (8544, 8559, 1, 16), (8579, 8579, 1, 1), (9398, 9423, 1, 26),
      (11264, 11311, 1, 48), (11360, 11360, 1, 1), (11362, 11362, 1, - 10743),
      (11363, 11363, 1, - 3814), (11364, 11364, 1, - 10727), (11367, 11371, 2, 1),
      (11373, 11373, 1, - 10780), (11374, 11374, 1, - 10749), (11375, 11375, 1, - 10783),
      (11376, 11376, 1, - 10782), (11378, 11378, 1, 1), (11381, 11381, 1, 1),
      (11390, 11391, 1, - 10815), (11392, 11490, 2, 1), (11499, 11501, 2, 1),
      (11506, 11506, 1, 1), (42560, 42604, 2, 1), (42624, 42650, 2, 1), (42786, 42798, 2, 1)] @
     [(42802, 42862, 2, 1), (42873, 42875, 2, 1), (42877, 42877, 1, - 35332),
      (42878, 42886, 2, 1), (42891, 42891, 1, 1), (42893, 42893, 1, - 42280),
      (42896, 42898, 2, 1), (42902, 42920, 2, 1), (42922, 42922, 1, - 42308),
      (42923, 42923, 1, - 42319), (42924, 42924, 1, - 42315), (42925, 42925, 1, - 42305),
      (42926, 42926, 1, - 42308), (42928, 42928, 1, - 42258), (42929, 42929, 1, - 42282),
      (42930, 42930, 1, - 42261), (42931, 42931, 1, 928), (42932, 42946, 2, 1),
      (42948, 42948, 1, - 48), (42949, 42949, 1, - 42307), (42950, 42950, 1, - 35384),
      (42951, 42953, 2, 1), (42960, 42960, 1, 1), (42966, 42968, 2, 1), (42997, 42997, 1, 1),
      (65313, 65338, 1, 32), (66560, 66599, 1, 40), (66736, 66771, 1, 40),
      (66928, 66938, 1, 39), (66940, 66954, 1, 39), (66956, 66962, 1, 39),
      (66964, 66965, 1, 39), (68736, 68786, 1, 64), (71840, 71871, 1, 32),
      (93760, 93791, 1, 32), (125184, 125217, 1, 34)]"

fun lower_lookup :: "(codepoint \<times> codepoint \<times> nat \<times> int) list \<Rightarrow> codepoint \<Rightarrow> codepoint" where
  "lower_lookup [] c = c"
| "lower_lookup ((lo, hi, step, offset) # rules) c =
     (if lo \<le> c \<and> c \<le> hi \<and> (c - lo) mod step = 0 then nat (int c + offset)
      else lower_lookup rules c)"

definition cased_ranges :: "(codepoint \<times> codepoint) list" where
  "cased_ranges =
     [(65, 90), (97, 122), (170, 170), (181, 181), (186, 186), (192, 214), (216, 246),
      (248, 442), (444, 447), (452, 659), (661, 687), (880, 883), (886, 887), (891, 893),
      (895, 895), (902, 902), (904, 906), (908, 908), (910, 929), (931, 1013), (1015, 1153),
      (1162, 1327), (1329, 1366), (1376, 1416), (4256, 4293), (4295, 4295), (4301, 4301),
      (4304, 4346), (4349, 4351), (5024, 5109), (5112, 5117), (7296, 7304), (7312, 7354),
      (7357, 7359), (7424, 7467), (7531, 7543), (7545, 7578), (7680, 7957), (7960, 7965),
      (7968, 8005), (8008, 8013), (8016, 8023), (8025, 8025), (8027, 8027), (8029, 8029),
      (8031, 8061), (8064, 8116), (8118, 8124), (8126, 8126), (8130, 8132), (8134, 8140),
      (8144, 8147), (8150, 8155), (8160, 8172), (8178, 8180), (8182, 8188), (8450, 8450),
      (8455, 8455), (8458, 8467), (8469, 8469), (8473, 8477), (8484, 8484), (8486, 8486),
      (8488, 8488)] @
     [(8490, 8493), (8495, 8500), (8505, 8505), (8508, 8511), (8517, 8521), (8526, 8526),
      (8544, 8575), (8579, 8580), (9398, 9449), (11264, 11387), (11390, 11492), (11499, 11502),
      (11506, 11507), (11520, 11557), (11559, 11559), (11565, 11565), (42560, 42605),
      (42624, 42651), (42786, 42863), (42865, 42887), (42891, 42894), (42896, 42954),
      (42960, 42961), (42963, 42963), (42965, 42969), (42997, 42998), (43002, 43002),
      (43824, 43866), (43872, 43880), (43888, 43967), (64256, 64262), (64275, 64279),
      (65313, 65338), (65345, 65370), (66560, 66639), (66736, 66771), (66776, 66811),
      (66928, 66938), (66940, 66954), (66956, 66962), (66964, 66965), (66967, 66977),
      (66979, 66993), (66995, 67001), (67003, 67004), (68736, 68786), (68800, 68850),
      (71840, 71903), (93760, 93823), (119808, 119892), (119894, 119964), (119966, 119967),
      (119970, 119970), (119973, 119974), (119977, 119980), (119982, 119993), (119995, 119995),
      (119997, 120003), (120005, 120069), (120071, 120074), (120077, 120084), (120086, 120092),
      (120094, 120121), (120123, 120126)] @
     [(120128, 120132), (120134, 120134), (120138, 120144), (120146, 120485), (120488, 120512),
      (120514, 120538), (120540, 120570), (120572, 120596), (120598, 120628), (120630, 120654),
      (120656, 120686), (120688, 120712), (120714, 120744), (120746, 120770), (120772, 120779),
      (122624, 122633), (122635, 122654), (125184, 125251), (127280, 127305), (127312, 127337),
      (127344, 127369)]"

definition case_ignorable_ranges :: "(codepoint \<times> codepoint) list" where
  "case_ignorable_ranges =
     [(39, 39), (46, 46), (58, 58), (94, 94), (96, 96), (168, 168), (173, 173), (175, 175),
      (180, 180), (183, 184), (688, 879), (884, 885), (890, 890), (900, 901), (903, 903),
      (1155, 1161), (1369, 1369), (1375, 1375), (1425, 1469), (1471, 1471), (1473, 1474),
      (1476, 1477), (1479, 1479), (1524, 1524), (1536, 1541), (1552, 1562), (1564, 1564),
      (1600, 1600), (1611, 1631), (1648, 1648), (1750, 1757), (1759, 1768), (1770, 1773),
      (1807, 1807), (1809, 1809), (1840, 1866), (1958, 1968), (2027, 2037), (2042, 2042),
      (2045, 2045), (2070, 2093), (2137, 2139), (2184, 2184), (2192, 2193), (2200, 2207),
      (2249, 2306), (2362, 2362), (2364, 2364), (2369, 2376), (2381, 2381), (2385, 2391),
      (2402, 2403), (2417, 2417), (2433, 2433), (2492, 2492), (2497, 2500), (2509, 2509),
      (2530, 2531), (2558, 2558), (2561, 2562), (2620, 2620), (2625, 2626), (2631, 2632),
      (2635, 2637)] @
     [(2641, 2641), (2672, 2673), (2677, 2677), (2689, 2690), (2748, 2748), (2753, 2757),
      (2759, 2760), (2765, 2765), (2786, 2787), (2810, 2815), (2817, 2817), (2876, 2876),
      (2879, 2879), (2881, 2884), (2893, 2893), (2901, 2902), (2914, 2915), (2946, 2946),
      (3008, 3008), (3021, 3021), (3072, 3072), (3076, 3076), (3132, 3132), (3134, 3136),
      (3142, 3144), (3146, 3149), (3157, 3158), (3170, 3171), (3201, 3201), (3260, 3260),
      (3263, 3263), (3270, 3270), (3276, 3277), (3298, 3299), (3328, 3329), (3387, 3388),
      (3393, 3396), (3405, 3405), (3426, 3427), (3457, 3457), (3530, 3530), (3538, 3540),
      (3542, 3542), (3633, 3633), (3636, 3642), (3654, 3662), (3761, 3761), (3764, 3772),
      (3782, 3782), (3784, 3789), (3864, 3865), (3893, 3893), (3895, 3895), (3897, 3897),
      (3953, 3966), (3968, 3972), (3974, 3975), (3981, 3991), (3993, 4028), (4038, 4038),
      (4141, 4144), (4146, 4151), (4153, 4154), (4157, 4158)] @
     [(4184, 4185), (4190, 4192), (4209, 4212), (4226, 4226), (4229, 4230), (4237, 4237),
      (4253, 4253), (4348, 4348), (4957, 4959), (5906, 5908), (5938, 5939), (5970, 5971),
      (6002, 6003), (6068, 6069), (6071, 6077), (6086, 6086), (6089, 6099), (6103, 6103),
      (6109, 6109), (6155, 6159), (6211, 6211), (6277, 6278), (6313, 6313), (6432, 6434),
      (6439, 6440), (6450, 6450), (6457, 6459), (6679, 6680), (6683, 6683), (6742, 6742),
      (6744, 6750), (6752, 6752), (6754, 6754), (6757, 6764), (6771, 6780), (6783, 6783),
      (6823, 6823), (6832, 6862), (6912, 6915), (6964, 6964), (6966, 6970), (6972, 6972),
      (6978, 6978), (7019, 7027), (7040, 7041), (7074, 7077), (7080, 7081), (7083, 7085),
      (7142, 7142), (7144, 7145), (7149, 7149), (7151, 7153), (7212, 7219), (7222, 7223),
      (7288, 7293), (7376, 7378), (7380, 7392), (7394, 7400), (7405, 7405), (7412, 7412),
      (7416, 7417), (7468, 7530), (7544, 7544), (7579, 7679)] @
     [(8125, 8125), (8127, 8129), (8141, 8143), (8157, 8159), (8173, 8175), (8189, 8190),
      (8203, 8207), (8216, 8217), (8228, 8228), (8231, 8231), (8234, 8238), (8288, 8292),
      (8294, 8303), (8305, 8305), (8319, 8319), (8336, 8348), (8400, 8432), (11388, 11389),
      (11503, 11505), (11631, 11631), (11647, 11647), (11744, 11775), (11823, 11823),
      (12293, 12293), (12330, 12333), (12337, 12341), (12347, 12347), (12441, 12446),
      (12540, 12542), (40981, 40981), (42232, 42237), (42508, 42508), (42607, 42610),
      (42612, 42621), (42623, 42623), (42652, 42655), (42736, 42737), (42752, 42785),
      (42864, 42864), (42888, 42890), (42994, 42996), (43000, 43001), (43010, 43010),
      (43014, 43014), (43019, 43019), (43045, 43046), (43052, 43052), (43204, 43205),
      (43232, 43249), (43263, 43263), (43302, 43309), (43335, 43345), (43392, 43394),
      (43443, 43443), (43446, 43449), (43452, 43453), (43471, 43471), (43493, 43494),
      (43561, 43566), (43569, 43570), (43573, 43574), (43587, 43587), (43596, 43596),
      (43632, 43632)] @
     [(43644, 43644), (43696, 43696), (43698, 43700), (43703, 43704), (43710, 43711),
      (43713, 43713), (43741, 43741), (43756, 43757), (43763, 43764), (43766, 43766),
      (43867, 43871), (43881, 43883), (44005, 44005), (44008, 44008), (44013, 44013),
      (64286, 64286), (64434, 64450), (65024, 65039), (65043, 65043), (65056, 65071),
      (65106, 65106), (65109, 65109), (65279, 65279), (65287, 65287), (65294, 65294),
      (65306, 65306), (65342, 65342), (65344, 65344), (65392, 65392), (65438, 65439),
      (65507, 65507), (65529, 65531), (66045, 66045), (66272, 66272), (66422, 66426),
      (67456, 67461), (67463, 67504), (67506, 67514), (68097, 68099), (68101, 68102),
      (68108, 68111), (68152, 68154), (68159, 68159), (68325, 68326), (68900, 68903),
      (69291, 69292), (69446, 69456), (69506, 69509), (69633, 69633), (69688, 69702),
      (69744, 69744), (69747, 69748), (69759, 69761), (69811, 69814), (69817, 69818),
      (69821, 69821), (69826, 69826), (69837, 69837), (69888, 69890), (69927, 69931),
      (69933, 69940), (70003, 70003), (70016, 70017), (70070, 70078)] @
     [(70089, 70092), (70095, 70095), (70191, 70193), (70196, 70196), (70198, 70199),
      (70206, 70206), (70367, 70367), (70371, 70378), (70400, 70401), (70459, 70460),
      (70464, 70464), (70502, 70508), (70512, 70516), (70712, 70719), (70722, 70724),
      (70726, 70726), (70750, 70750), (70835, 70840), (70842, 70842), (70847, 70848),
      (70850, 70851), (71090, 71093), (71100, 71101), (71103, 71104), (71132, 71133),
      (71219, 71226), (71229, 71229), (71231, 71232), (71339, 71339), (71341, 71341),
      (71344, 71349), (71351, 71351), (71453, 71455), (71458, 71461), (71463, 71467),
      (71727, 71735), (71737, 71738), (71995, 71996), (71998, 71998), (72003, 72003),
      (72148, 72151), (72154, 72155), (72160, 72160), (72193, 72202), (72243, 72248),
      (72251, 72254), (72263, 72263), (72273, 72278), (72281, 72283), (72330, 72342),
      (72344, 72345), (72752, 72758), (72760, 72765), (72767, 72767), (72850, 72871),
      (72874, 72880), (72882, 72883), (72885, 72886), (73009, 73014), (73018, 73018),
      (73020, 73021), (73023, 73029), (73031, 73031), (73104, 73105)] @
     [(73109, 73109), (73111, 73111), (73459, 73460), (78896, 78904), (92912, 92916),
      (92976, 92982), (92992, 92995), (94031, 94031), (94095, 94111), (94176, 94177),
      (94179, 94180), (110576, 110579), (110581, 110587), (110589, 110590), (113821, 113822),
      (113824, 113827), (118528, 118573), (118576, 118598), (119143, 119145), (119155, 119170),
      (119173, 119179), (119210, 119213), (119362, 119364), (121344, 121398), (121403, 121452),
      (121461, 121461), (121476, 121476), (121499, 121503), (121505, 121519), (122880, 122886),
      (122888, 122904), (122907, 122913), (122915, 122916), (122918, 122922), (123184, 123197),
      (123566, 123566), (123628, 123631), (125136, 125142), (125252, 125259), (127995, 127999),
      (917505, 917505), (917536, 917631), (917760, 917999)]"

definition final_sigma :: "pystr \<Rightarrow> pystr \<Rightarrow> bool" where
  "final_sigma before after \<longleftrightarrow>
     (case dropWhile (in_ranges case_ignorable_ranges) before of
        [] \<Rightarrow> False
      | c # _ \<Rightarrow> in_ranges cased_ranges c)
     \<and> (case dropWhile (in_ranges case_ignorable_ranges) after of
          [] \<Rightarrow> True
        | c # _ \<Rightarrow> \<not> in_ranges cased_ranges c)"

definition lower_cp :: "codepoint \<Rightarrow> pystr" where
  "lower_cp c =
     (if c < 128 then [ascii_lower c]
      else if c = 304 then [105, 775]
      else [lower_lookup lower_rules c])"

text \<open>\<open>lower_from before s\<close> lowers \<open>s\<close>; \<open>before\<close> holds the code points to the left of \<open>s\<close>, the
  nearest first.\<close>

fun lower_from :: "pystr \<Rightarrow> pystr \<Rightarrow> pystr" where
  "lower_from before [] = []"
| "lower_from before (c # s) =
     (if c = 931 then [if final_sigma before s then 962 else 963] else lower_cp c)
     @ lower_from (c # before) s"

definition py_lower :: "pystr \<Rightarrow> pystr" where
  "py_lower s = lower_from [] s"

section \<open>The regular expressions of the program\<close>

text \<open>
  The patterns of the program are sequences of pieces: a character class under a counted
  quantifier (greedy or lazy), or an alternation of literal words.  The matcher is the
  backtracking matcher of Python's \<open>re\<close>: every piece tries its possible lengths in order of
  preference (longest first when greedy, shortest first when lazy, the words in the order
  written) and the first choice for which the rest of the pattern matches wins.  A match is
  returned as the list of the substrings taken by the pieces, so that a group is read off as
  the pieces it encloses.
\<close>

datatype cclass =
    Lit codepoint
  | InSet "(codepoint \<times> codepoint) list"
  | NotInSet "(codepoint \<times> codepoint) list"
  | Space
  | Digit
  | Dot
  | DotAll

datatype piece =
    Rep cclass nat "nat option" bool
  | Words "pystr list"

text \<open>
  \<open>cmatch ic cls c\<close>: does code point \<open>c\<close> belong to the class, \<open>ic\<close> being the
  \<open>re.IGNORECASE\<close> flag.  Under the flag a letter of a pattern matches its two cases and the
  code points the matcher counts as further cases of it; every letter of the program's
  patterns is ASCII, and for these the further cases are U+0130 and U+0131 of \<open>i\<close>, U+017F of
  \<open>s\<close> and U+212A of \<open>k\<close>: \<open>fold_cp\<close> takes every case of an ASCII letter to the small letter.
  \<open>Space\<close> is \<^verbatim>\<open>\s\<close>, \<open>Digit\<close> is \<^verbatim>\<open>\d\<close>, \<open>Dot\<close> is \<open>.\<close> and \<open>DotAll\<close> is \<open>.\<close> under
  \<open>re.DOTALL\<close>.
\<close>

definition fold_cp :: "codepoint \<Rightarrow> codepoint" where
  "fold_cp c =
     (if 65 \<le> c \<and> c \<le> 90 then c + 32
      else if c = 304 \<or> c = 305 then 105
      else if c = 383 then 115
      else if c = 8490 then 107
      else c)"

fun cmatch :: "bool \<Rightarrow> cclass \<Rightarrow> codepoint \<Rightarrow> bool" where
  "cmatch ic (Lit l) c = (if ic then fold_cp c = fold_cp l else c = l)"
| "cmatch ic (InSet rs) c =
     (if ic then in_ranges rs (fold_cp c) \<or> in_ranges rs (ascii_upper (fold_cp c))
      else in_ranges rs c)"
| "cmatch ic (NotInSet rs) c =
     (\<not> (if ic then in_ranges rs (fold_cp c) \<or> in_ranges rs (ascii_upper (fold_cp c))
         else in_ranges rs c))"
| "cmatch ic Space c = py_isspace c"
| "cmatch ic Digit c = is_decimal c"
| "cmatch ic Dot c = (c \<noteq> 10)"
| "cmatch ic DotAll c = True"

definition word_at :: "bool \<Rightarrow> pystr \<Rightarrow> pystr \<Rightarrow> bool" where
  "word_at ic w s =
     (length w \<le> length s \<and>
      (if ic then map fold_cp (take (length w) s) = map fold_cp w else take (length w) s = w))"

text \<open>The lengths a piece may take at the head of \<open>s\<close>, in the order the matcher tries them.\<close>

fun candidates :: "bool \<Rightarrow> piece \<Rightarrow> pystr \<Rightarrow> nat list" where
  "candidates ic (Rep c lo hi greedy) s =
     (let n = length (takeWhile (cmatch ic c) s);
          m = (case hi of None \<Rightarrow> n | Some h \<Rightarrow> min h n)
      in if m < lo then [] else if greedy then rev [lo..<Suc m] else [lo..<Suc m])"
| "candidates ic (Words ws) s = map length (filter (\<lambda>w. word_at ic w s) ws)"

fun match_here :: "bool \<Rightarrow> piece list \<Rightarrow> pystr \<Rightarrow> pystr list option"
  and try_lengths :: "bool \<Rightarrow> piece list \<Rightarrow> pystr \<Rightarrow> nat list \<Rightarrow> pystr list option" where
  "match_here ic [] s = Some []"
| "match_here ic (p # ps) s = try_lengths ic ps s (candidates ic p s)"
| "try_lengths ic ps s [] = None"
| "try_lengths ic ps s (k # ks) =
     (case match_here ic ps (drop k s) of
        Some g \<Rightarrow> Some (take k s # g)
      | None \<Rightarrow> try_lengths ic ps s ks)"

text \<open>\<open>re.search\<close>: the match at the leftmost position that has one.\<close>

fun re_search :: "bool \<Rightarrow> piece list \<Rightarrow> pystr \<Rightarrow> pystr list option" where
  "re_search ic ps [] = match_here ic ps []"
| "re_search ic ps (c # s) =
     (case match_here ic ps (c # s) of Some g \<Rightarrow> Some g | None \<Rightarrow> re_search ic ps s)"

text \<open>
  \<open>re.findall\<close>: the matches from left to right, each search starting where the previous match
  ended (one character further after an empty match; no pattern of the program matches the
  empty string).
\<close>

function re_findall :: "bool \<Rightarrow> piece list \<Rightarrow> pystr \<Rightarrow> pystr list list" where
  "re_findall ic ps [] = (case match_here ic ps [] of None \<Rightarrow> [] | Some g \<Rightarrow> [g])"
| "re_findall ic ps (c # s) =
     (case match_here ic ps (c # s) of
        None \<Rightarrow> re_findall ic ps s
      | Some g \<Rightarrow>
          if concat g = [] then g # re_findall ic ps s
          else g # re_findall ic ps (drop (length (concat g)) (c # s)))"
  by pat_completeness auto
termination
  by (relation "measure (\<lambda>(ic, ps, s). length s)") auto

text \<open>Pattern constructors: one literal character per piece, and the usual quantifiers.\<close>

definition lits :: "string \<Rightarrow> piece list" where
  "lits s = map (\<lambda>c. Rep (Lit (of_char c)) 1 (Some 1) True) s"

definition one :: "cclass \<Rightarrow> piece" where
  "one c = Rep c 1 (Some 1) True"

definition opt :: "cclass \<Rightarrow> piece" where
  "opt c = Rep c 0 (Some 1) True"

definition star :: "cclass \<Rightarrow> piece" where
  "star c = Rep c 0 None True"

definition plus1 :: "cclass \<Rightarrow> piece" where
  "plus1 c = Rep c 1 None True"

definition at_least :: "nat \<Rightarrow> cclass \<Rightarrow> piece" where
  "at_least n c = Rep c n None True"

definition lazy_star :: "cclass \<Rightarrow> piece" where
  "lazy_star c = Rep c 0 None False"

definition chars :: "string \<Rightarrow> (codepoint \<times> codepoint) list" where
  "chars s = map (\<lambda>c. (of_char c, of_char c)) s"

definition crange :: "char \<Rightarrow> char \<Rightarrow> codepoint \<times> codepoint" where
  "crange a b = (of_char a, of_char b)"

section \<open>Flag detection (\<open>flag_validator.py\<close>, \<open>ctf_agent.py\<close>)\<close>

text \<open>\<^verbatim>\<open>pico[C:]?[T:]?F\{[^}]+\}\<close>, always used with \<open>re.IGNORECASE\<close>.\<close>

definition flag_pattern :: "piece list" where
  "flag_pattern =
     lits ''pico'' @ [opt (InSet (chars ''C:'')), opt (InSet (chars ''T:''))] @ lits ''F{'' @
     [plus1 (NotInSet (chars ''}''))] @ lits ''}''"

definition findall_flags :: "pystr \<Rightarrow> pystr list" where
  "findall_flags s = map concat (re_findall True flag_pattern s)"

text \<open>
  \<open>FlagValidator._extract_flags\<close>: the loop over the matches with the set \<open>seen\<close> and the list
  \<open>unique_flags\<close>.
\<close>

fun unique_loop :: "pystr list \<Rightarrow> pystr set \<Rightarrow> pystr list \<Rightarrow> pystr list" where
  "unique_loop [] seen unique_flags = unique_flags"
| "unique_loop (flag # flags) seen unique_flags =
     (if flag \<notin> seen then unique_loop flags (insert flag seen) (unique_flags @ [flag])
      else unique_loop flags seen unique_flags)"

definition extract_flags :: "pystr \<Rightarrow> pystr list" where
  "extract_flags s = unique_loop (findall_flags s) {} []"

text \<open>
  \<open>list(dict.fromkeys(xs))\<close>: a dict keeps its keys in insertion order and a key that is
  already present keeps its place.
\<close>

fun dict_fromkeys :: "'a list \<Rightarrow> 'a list \<Rightarrow> 'a list" where
  "dict_fromkeys [] keys = keys"
| "dict_fromkeys (x # xs) keys =
     (if x \<in> set keys then dict_fromkeys xs keys else dict_fromkeys xs (keys @ [x]))"

text \<open>
  \<open>CTFAgent._detect_flags\<close>: returns the de-duplicated candidates and the new value of
  \<open>self.last_flag_candidate\<close> (the last candidate, when there is one).
\<close>

definition detect_flags :: "pystr \<Rightarrow> pystr list \<Rightarrow> pystr option \<Rightarrow> pystr list \<times> pystr option" where
  "detect_flags ai_response tool_results last_flag_candidate =
     (let all_text = ai_response @ ustr '' '' @ py_join (ustr '' '') tool_results;
          candidates = findall_flags all_text;
          unique_candidates = dict_fromkeys candidates []
      in (unique_candidates,
          if unique_candidates \<noteq> [] then Some (last unique_candidates) else last_flag_candidate))"

section \<open>Placeholder filter (\<open>main.py\<close>)\<close>

definition invalid_patterns :: "piece list list" where
  "invalid_patterns =
     [ lits ''picoCTF{...}'',
       lits ''picoCTF{content}'',
       lits ''picoCTF{{...}}'',
       lits ''picoCTF{'' @ [at_least 4 (InSet (chars ''Xx''))] @ lits ''}'',
       lits ''picoCTF{flag}'',
       lits ''picoCTF{FLAG}'',
       lits ''picoCTF{your_flag}'',
       lits ''picoCTF{'' @
         [at_least 3 (NotInSet [crange CHR ''a'' CHR ''z'', crange CHR ''A'' CHR ''Z'',
                                crange CHR ''0'' CHR ''9'', crange CHR ''_'' CHR ''_''])] @
         lits ''}'',
       lits ''picoCTF{'' @ [star (NotInSet (chars ''}''))] @ lits ''placeholder'' @
         [star (NotInSet (chars ''}''))] @ lits ''}'',
       lits ''picoCTF{'' @ [star (NotInSet (chars ''}''))] @ lits ''example'' @
         [star (NotInSet (chars ''}''))] @ lits ''}'',
       lits ''picoCTF{'' @ [star (NotInSet (chars ''}''))] @ lits ''template'' @
         [star (NotInSet (chars ''}''))] @ lits ''}'' ]"

text \<open>\<^verbatim>\<open>picoCTF\{([^}]+)\}\<close>, searched without any flag; group 1 is piece 8.\<close>

definition content_pattern :: "piece list" where
  "content_pattern = lits ''picoCTF{'' @ [plus1 (NotInSet (chars ''}''))] @ lits ''}''"

text \<open>A loop over a list of patterns that returns at the first pattern found.\<close>

fun any_pattern_found :: "bool \<Rightarrow> piece list list \<Rightarrow> pystr \<Rightarrow> bool" where
  "any_pattern_found ic [] flag = False"
| "any_pattern_found ic (pattern # patterns) flag =
     (if re_search ic pattern flag \<noteq> None then True else any_pattern_found ic patterns flag)"

definition is_placeholder_flag :: "pystr \<Rightarrow> bool" where
  "is_placeholder_flag flag =
     (if any_pattern_found True invalid_patterns flag then True
      else case re_search False content_pattern flag of
             Some g \<Rightarrow>
               (let content_text = g ! 8
                in if length content_text < 3 \<or> length content_text > 100 then True else False)
           | None \<Rightarrow> False)"

section \<open>The task tree (\<open>task_tree.py\<close>, \<open>task_manager.py\<close>)\<close>

text \<open>
  A task and a subtask are dictionaries with fixed keys; they are modelled as records.  The two
  modules hold the same class \<open>TaskTree\<close>: the functions of \<open>task_tree.py\<close> carry the prefix
  \<open>task_tree_\<close>, those of \<open>task_manager.py\<close> the prefix \<open>task_manager_\<close>.  The subtask id is the
  string \<open>"<task>.<n>"\<close> in the first and the number \<open>n\<close> in the second.  The clock
  (\<open>datetime.now().isoformat()\<close>) is the argument \<open>now\<close>.

  The description and the status of a task are strings when they come from an arrow
  directive.  A structured report stores what its JSON text holds: \<open>jvalue\<close> is a field of a
  report, a JSON scalar (\<open>null\<close>, a boolean, an integer or a string; the declared type of every
  field is a string).  A key that a task does not have reads as \<open>None\<close>, which is \<open>JNull\<close>.
\<close>

datatype pyid = IdInt int | IdStr pystr

datatype jvalue = JNull | JBool bool | JInt int | JStr pystr

record subtask =
  s_id :: pyid
  s_tool :: pystr
  s_input :: pystr
  s_result :: pystr
  s_timestamp :: pystr

record task =
  t_id :: int
  t_description :: jvalue
  t_status :: jvalue
  t_timestamp :: pystr
  t_subtasks :: "subtask list"
  t_parent_id :: jvalue
  t_details :: jvalue

record task_tree =
  challenge_title :: pystr
  storage_path :: pystr
  tasks :: "task list"
  current_task_id :: int

definition TaskTree_init :: "pystr \<Rightarrow> pystr \<Rightarrow> task_tree" where
  "TaskTree_init title path =
     \<lparr>challenge_title = title, storage_path = path, tasks = [], current_task_id = 0\<rparr>"

text \<open>\<open>str(n)\<close> for an integer, and \<open>str(v)\<close> for a field as an f-string prints it.\<close>

function py_str_nat :: "nat \<Rightarrow> pystr" where
  "py_str_nat n = (if n < 10 then [48 + n] else py_str_nat (n div 10) @ [48 + n mod 10])"
  by pat_completeness auto
termination
  by (relation "measure id") auto

declare py_str_nat.simps [simp del]

definition py_str_int :: "int \<Rightarrow> pystr" where
  "py_str_int i = (if i < 0 then 45 # py_str_nat (nat (- i)) else py_str_nat (nat i))"

fun py_str :: "jvalue \<Rightarrow> pystr" where
  "py_str JNull = ustr ''None''"
| "py_str (JBool b) = (if b then ustr ''True'' else ustr ''False'')"
| "py_str (JInt n) = py_str_int n"
| "py_str (JStr s) = s"

text \<open>
  \<open>int(s)\<close> for a string; \<open>None\<close> is \<open>ValueError\<close>.  \<open>int\<close> strips the white space of
  \<open>str.isspace\<close> except the separators U+001C to U+001F, takes a sign, and reads decimal digits
  of any script, with single underscores between digits.  The interpreter's cap on the number
  of digits of a conversion is a setting of the runtime (4300 digits unless changed) and is
  left out.
\<close>

definition int_space :: "codepoint \<Rightarrow> bool" where
  "int_space c \<longleftrightarrow> py_isspace c \<and> \<not> (28 \<le> c \<and> c \<le> 31)"

fun parse_digits :: "pystr \<Rightarrow> bool \<Rightarrow> nat \<Rightarrow> nat option" where
  "parse_digits [] after_digit acc = (if after_digit then Some acc else None)"
| "parse_digits (c # cs) after_digit acc =
     (case digit_value c of
        Some d \<Rightarrow> parse_digits cs True (10 * acc + d)
      | None \<Rightarrow> if c = 95 \<and> after_digit then parse_digits cs False acc else None)"

definition py_int :: "pystr \<Rightarrow> int option" where
  "py_int s =
     (case rev (dropWhile int_space (rev (dropWhile int_space s))) of
        [] \<Rightarrow> None
      | c # cs \<Rightarrow>
          if c = 45 then map_option (\<lambda>n. - int n) (parse_digits cs False 0)
          else if c = 43 then map_option int (parse_digits cs False 0)
          else map_option int (parse_digits (c # cs) False 0))"

text \<open>
  \<^verbatim>\<open>\<rightarrow>\s*Task:\s*(\d+)\.\s*(.*?)\s+-\s+(completed|in-progress|failed|pending)\<close> with
  \<open>re.IGNORECASE\<close>; the arrow is U+2192.  The groups are the pieces 8, 11 and 15.
\<close>

definition task_pattern :: "piece list" where
  "task_pattern =
     [Rep (Lit 8594) 1 (Some 1) True, star Space] @ lits ''Task:'' @ [star Space, plus1 Digit] @
     lits ''.'' @ [star Space, lazy_star Dot, plus1 Space] @ lits ''-'' @
     [plus1 Space,
      Words [ustr ''completed'', ustr ''in-progress'', ustr ''failed'', ustr ''pending'']]"

definition findall_tasks :: "pystr \<Rightarrow> (pystr \<times> pystr \<times> pystr) list" where
  "findall_tasks s = map (\<lambda>g. (g ! 8, g ! 11, g ! 15)) (re_findall True task_pattern s)"

text \<open>The loop \<open>for i, existing_task in enumerate(self.tasks)\<close> that stops at the first task
  with the id.\<close>

fun find_task_index :: "task list \<Rightarrow> int \<Rightarrow> nat option" where
  "find_task_index [] task_id = None"
| "find_task_index (t # ts) task_id =
     (if t_id t = task_id then Some 0 else map_option Suc (find_task_index ts task_id))"

text \<open>The dictionary of a task made from strings, as an arrow directive and the default task
  make it.\<close>

definition new_task :: "int \<Rightarrow> pystr \<Rightarrow> pystr \<Rightarrow> pystr \<Rightarrow> task" where
  "new_task task_id description status now =
     \<lparr>t_id = task_id, t_description = JStr description, t_status = JStr status,
      t_timestamp = now, t_subtasks = [], t_parent_id = JNull, t_details = JNull\<rparr>"

subsection \<open>\<open>task_tree.py\<close>\<close>

fun task_tree_match_loop ::
  "pystr \<Rightarrow> (pystr \<times> pystr \<times> pystr) list \<Rightarrow> task list \<Rightarrow> nat \<Rightarrow> task list \<times> nat" where
  "task_tree_match_loop now [] ts extracted_count = (ts, extracted_count)"
| "task_tree_match_loop now ((task_id_str, description, status) # ms) ts extracted_count =
     (case py_int task_id_str of
        None \<Rightarrow> task_tree_match_loop now ms ts extracted_count
      | Some task_id \<Rightarrow>
          (case find_task_index ts task_id of
             Some i \<Rightarrow>
               if t_status (ts ! i) \<noteq> JStr (py_lower status)
                  \<or> t_description (ts ! i) \<noteq> JStr (py_strip description)
               then task_tree_match_loop now ms
                      (ts[i := (ts ! i)\<lparr>t_status := JStr (py_lower status),
                                        t_description := JStr (py_strip description),
                                        t_timestamp := now\<rparr>])
                      (extracted_count + 1)
               else task_tree_match_loop now ms ts extracted_count
           | None \<Rightarrow>
               task_tree_match_loop now ms
                 (ts @ [new_task task_id (py_strip description) (py_lower status) now])
                 (extracted_count + 1)))"

definition task_tree_extract_tasks_from_response ::
  "pystr \<Rightarrow> task_tree \<Rightarrow> pystr \<Rightarrow> task_tree \<times> nat" where
  "task_tree_extract_tasks_from_response now tr llm_response =
     (case task_tree_match_loop now (findall_tasks llm_response) (tasks tr) 0 of
        (ts, extracted_count) \<Rightarrow> (tr\<lparr>tasks := sort_key t_id ts\<rparr>, extracted_count))"

text \<open>The task the tool result goes to: the last task in progress, found from the back.\<close>

fun find_last_in_progress :: "task list \<Rightarrow> nat option" where
  "find_last_in_progress [] = None"
| "find_last_in_progress (t # ts) =
     (case find_last_in_progress ts of
        Some i \<Rightarrow> Some (Suc i)
      | None \<Rightarrow> if t_status t = JStr (ustr ''in-progress'') then Some 0 else None)"

text \<open>\<open>max(self.tasks, key=...)\<close>: the first task with the largest id.\<close>

fun argmax_from :: "task list \<Rightarrow> nat \<Rightarrow> nat \<Rightarrow> int \<Rightarrow> nat" where
  "argmax_from [] i best best_key = best"
| "argmax_from (t # ts) i best best_key =
     (if t_id t > best_key then argmax_from ts (Suc i) i (t_id t)
      else argmax_from ts (Suc i) best best_key)"

definition max_id_index :: "task list \<Rightarrow> nat" where
  "max_id_index ts = (case ts of [] \<Rightarrow> 0 | t # ts' \<Rightarrow> argmax_from ts' 1 0 (t_id t))"

definition add_subtask :: "task list \<Rightarrow> nat \<Rightarrow> subtask \<Rightarrow> task list" where
  "add_subtask ts i sub = ts[i := (ts ! i)\<lparr>t_subtasks := t_subtasks (ts ! i) @ [sub]\<rparr>]"

definition task_tree_add_tool_result ::
  "pystr \<Rightarrow> task_tree \<Rightarrow> pystr \<Rightarrow> pystr \<Rightarrow> pystr \<Rightarrow> task_tree \<times> pystr" where
  "task_tree_add_tool_result now tr tool_name tool_input tool_result =
     (if tool_name = ustr ''report_task_update'' then (tr, ustr ''skipped'')
      else
        let ts = (if tasks tr = []
                  then [new_task 1 (ustr ''Solve challenge'') (ustr ''in-progress'') now]
                  else tasks tr);
            i = (case find_last_in_progress ts of Some i \<Rightarrow> i | None \<Rightarrow> max_id_index ts);
            main_id = t_id (ts ! i);
            subtask_id = length (t_subtasks (ts ! i)) + 1;
            subtask_id_str = py_str_int main_id @ ustr ''.'' @ py_str_nat subtask_id;
            sub = \<lparr>s_id = IdStr subtask_id_str, s_tool = tool_name,
                   s_input = ellipsis 100 tool_input, s_result = ellipsis 200 tool_result,
                   s_timestamp = now\<rparr>
        in (tr\<lparr>tasks := add_subtask ts i sub\<rparr>, subtask_id_str))"

subsection \<open>\<open>task_manager.py\<close>\<close>

fun task_manager_match_loop ::
  "pystr \<Rightarrow> (pystr \<times> pystr \<times> pystr) list \<Rightarrow> task list \<Rightarrow> int \<Rightarrow> nat
   \<Rightarrow> task list \<times> int \<times> nat" where
  "task_manager_match_loop now [] ts watermark extracted_count = (ts, watermark, extracted_count)"
| "task_manager_match_loop now ((task_id_str, description, status) # ms) ts watermark
     extracted_count =
     (case py_int task_id_str of
        None \<Rightarrow> task_manager_match_loop now ms ts watermark extracted_count
      | Some task_id \<Rightarrow>
          (case find_task_index ts task_id of
             Some i \<Rightarrow>
               task_manager_match_loop now ms
                 (ts[i := (ts ! i)\<lparr>t_status := JStr (py_lower status),
                                   t_description := JStr (py_strip description),
                                   t_timestamp := now\<rparr>])
                 watermark (extracted_count + 1)
           | None \<Rightarrow>
               task_manager_match_loop now ms
                 (ts @ [new_task task_id (py_strip description) (py_lower status) now])
                 (max watermark task_id) (extracted_count + 1)))"

text \<open>
  The fallback: \<^verbatim>\<open><tool>task_manager</tool>\s*<input>(.*?)</input>\<close> with \<open>re.DOTALL\<close>; the
  group is piece 33.

  \<open>json.loads\<close> belongs to the Python library and is an argument of the model.  Its result is
  given as the program reads it.  \<open>JSONDecodeError\<close>: the text is not JSON, and the loop goes on
  with the next report.  \<open>NotAReport\<close>: the text is JSON, but reading \<open>updates\<close> from it raises
  (it is not an object, or \<open>updates\<close> is a number, a boolean or \<open>null\<close>).  \<open>Report\<close>: the
  elements of \<open>updates\<close> in order, an \<open>Update\<close> for an object and \<open>NotAnObject\<close> for anything
  else, on which \<open>update.get\<close> raises.  What is raised there is caught by the outer handler of
  \<open>extract_tasks_from_response\<close>: the reports that follow are not read, and what was done stays
  done.  In an update, \<open>u_description\<close> and \<open>u_status\<close> are \<open>None\<close> when the key is absent and
  the default applies; \<open>u_task_id\<close>, \<open>u_parent_id\<close> and \<open>u_details\<close> have the default \<open>None\<close>,
  so that an absent key reads as \<open>JNull\<close>.
\<close>

definition json_pattern :: "piece list" where
  "json_pattern =
     lits ''<tool>task_manager</tool>'' @ [star Space] @ lits ''<input>'' @ [lazy_star DotAll] @
     lits ''</input>''"

definition findall_json :: "pystr \<Rightarrow> pystr list" where
  "findall_json s = map (\<lambda>g. g ! 33) (re_findall False json_pattern s)"

definition endswith :: "pystr \<Rightarrow> pystr \<Rightarrow> bool" where
  "endswith s p = startswith (rev s) (rev p)"

definition clean_json_input :: "pystr \<Rightarrow> pystr" where
  "clean_json_input json_input =
     (let a = py_strip json_input;
          b = (if startswith a (ustr ''```json'') then drop 7 a else a);
          c = (if endswith b (ustr ''```'') then take (length b - 3) b else b)
      in py_strip c)"

record update =
  u_task_id :: jvalue
  u_description :: "jvalue option"
  u_status :: "jvalue option"
  u_parent_id :: jvalue
  u_details :: jvalue

datatype update_entry = Update update | NotAnObject

datatype json_doc = JSONDecodeError | NotAReport | Report "update_entry list"

text \<open>
  The task id of an update and the new watermark: an id that is missing or false (\<open>null\<close>,
  \<open>false\<close>, 0, the empty string), or that \<open>int\<close> rejects, takes the next number.
\<close>

fun resolve_task_id :: "jvalue \<Rightarrow> int \<Rightarrow> int \<times> int" where
  "resolve_task_id JNull watermark = (watermark + 1, watermark + 1)"
| "resolve_task_id (JBool b) watermark =
     (if b then (1, max watermark 1) else (watermark + 1, watermark + 1))"
| "resolve_task_id (JInt n) watermark =
     (if n = 0 then (watermark + 1, watermark + 1) else (n, max watermark n))"
| "resolve_task_id (JStr s) watermark =
     (if s = [] then (watermark + 1, watermark + 1)
      else case py_int s of
             Some n \<Rightarrow> (n, max watermark n)
           | None \<Rightarrow> (watermark + 1, watermark + 1))"

text \<open>The body of the loop \<open>for update in updates\<close>, for an update that is an object.\<close>

definition task_manager_apply_update ::
  "pystr \<Rightarrow> update \<Rightarrow> task list \<Rightarrow> int \<Rightarrow> nat \<Rightarrow> task list \<times> int \<times> nat" where
  "task_manager_apply_update now u ts watermark extracted_count =
     (case resolve_task_id (u_task_id u) watermark of
        (task_id, watermark') \<Rightarrow>
          let description =
                (case u_description u of None \<Rightarrow> JStr (ustr ''Unknown task'') | Some d \<Rightarrow> d);
              status = (case u_status u of None \<Rightarrow> JStr (ustr ''pending'') | Some s \<Rightarrow> s)
          in (case find_task_index ts task_id of
                Some i \<Rightarrow>
                  (ts[i := (ts ! i)\<lparr>t_status := status, t_description := description,
                                    t_timestamp := now, t_details := u_details u\<rparr>],
                   watermark', extracted_count + 1)
              | None \<Rightarrow>
                  (ts @ [\<lparr>t_id = task_id, t_description = description, t_status = status,
                          t_timestamp = now, t_subtasks = [], t_parent_id = u_parent_id u,
                          t_details = u_details u\<rparr>],
                   watermark', extracted_count + 1)))"

text \<open>The loop over the updates of one report; the flag says that it was left by an
  exception.\<close>

fun task_manager_update_loop ::
  "pystr \<Rightarrow> update_entry list \<Rightarrow> task list \<Rightarrow> int \<Rightarrow> nat
   \<Rightarrow> (task list \<times> int \<times> nat) \<times> bool" where
  "task_manager_update_loop now [] ts watermark extracted_count =
     ((ts, watermark, extracted_count), False)"
| "task_manager_update_loop now (NotAnObject # entries) ts watermark extracted_count =
     ((ts, watermark, extracted_count), True)"
| "task_manager_update_loop now (Update u # entries) ts watermark extracted_count =
     (case task_manager_apply_update now u ts watermark extracted_count of
        (ts', watermark', extracted_count') \<Rightarrow>
          task_manager_update_loop now entries ts' watermark' extracted_count')"

fun task_manager_json_loop ::
  "(pystr \<Rightarrow> json_doc) \<Rightarrow> pystr \<Rightarrow> pystr list \<Rightarrow> task list \<Rightarrow> int \<Rightarrow> nat
   \<Rightarrow> task list \<times> int \<times> nat" where
  "task_manager_json_loop json_loads now [] ts watermark extracted_count =
     (ts, watermark, extracted_count)"
| "task_manager_json_loop json_loads now (json_input # rest) ts watermark extracted_count =
     (case json_loads (clean_json_input json_input) of
        JSONDecodeError \<Rightarrow> task_manager_json_loop json_loads now rest ts watermark extracted_count
      | NotAReport \<Rightarrow> (ts, watermark, extracted_count)
      | Report updates \<Rightarrow>
          (case task_manager_update_loop now updates ts watermark extracted_count of
             ((ts', watermark', extracted_count'), raised) \<Rightarrow>
               if raised then (ts', watermark', extracted_count')
               else task_manager_json_loop json_loads now rest ts' watermark' extracted_count'))"

definition task_manager_extract_tasks_from_response ::
  "(pystr \<Rightarrow> json_doc) \<Rightarrow> pystr \<Rightarrow> task_tree \<Rightarrow> pystr \<Rightarrow> task_tree \<times> nat" where
  "task_manager_extract_tasks_from_response json_loads now tr llm_response =
     (case task_manager_match_loop now (findall_tasks llm_response) (tasks tr)
             (current_task_id tr) 0 of
        (ts, watermark, extracted_count) \<Rightarrow>
          (case (if extracted_count = 0
                 then task_manager_json_loop json_loads now (findall_json llm_response) ts
                        watermark extracted_count
                 else (ts, watermark, extracted_count)) of
             (ts', watermark', extracted_count') \<Rightarrow>
               (tr\<lparr>tasks := sort_key t_id ts', current_task_id := watermark'\<rparr>,
                extracted_count')))"

definition task_manager_add_tool_result ::
  "pystr \<Rightarrow> task_tree \<Rightarrow> pystr \<Rightarrow> pystr \<Rightarrow> pystr \<Rightarrow> task_tree \<times> pystr" where
  "task_manager_add_tool_result now tr tool_name tool_input tool_result =
     (if tool_name = ustr ''task_manager'' then (tr, ustr ''skipped'')
      else
        let tr1 = (if tasks tr = []
                   then tr\<lparr>tasks := [new_task 1 (ustr ''Challenge analysis and solving'')
                                         (ustr ''in-progress'') now],
                           current_task_id := 1\<rparr>
                   else tr);
            ts = tasks tr1;
            i = (case find_last_in_progress ts of Some i \<Rightarrow> i | None \<Rightarrow> length ts - 1);
            subtask_id = length (t_subtasks (ts ! i)) + 1;
            sub = \<lparr>s_id = IdInt (int subtask_id), s_tool = tool_name,
                   s_input = ellipsis 200 tool_input, s_result = ellipsis 500 tool_result,
                   s_timestamp = now\<rparr>
        in (tr1\<lparr>tasks := add_subtask ts i sub\<rparr>,
            ustr ''Added to task '' @ py_str_int (t_id (ts ! i))))"


section \<open>The context optimizer (\<open>context_optimizer.py\<close>)\<close>

text \<open>
  The three fields \<open>ContextOptimizer.__init__\<close> sets are never assigned again; the third,
  \<open>token_budget\<close>, is never read.
\<close>

definition full_context_interval :: int where
  "full_context_interval = 5"

definition max_recent_tasks :: nat where
  "max_recent_tasks = 3"

definition error_words :: "pystr list" where
  "error_words = [ustr ''error'', ustr ''failed'', ustr ''exception'', ustr ''traceback'']"

text \<open>\<open>any(error_word in result.lower() for error_word in [...])\<close>.\<close>

fun any_word_in :: "pystr list \<Rightarrow> pystr \<Rightarrow> bool" where
  "any_word_in [] s = False"
| "any_word_in (w # ws) s = (if py_in w s then True else any_word_in ws s)"

text \<open>The loop over \<open>recent_results\<close>, which returns at the first result with a flag or an error
  word.  An absent list (\<open>None\<close>) takes the branches of the empty list everywhere.\<close>

fun results_notable :: "pystr list \<Rightarrow> bool" where
  "results_notable [] = False"
| "results_notable (result # rest) =
     (if result \<noteq> [] \<and> re_search True flag_pattern result \<noteq> None then True
      else if result \<noteq> [] \<and> any_word_in error_words (py_lower result) then True
      else results_notable rest)"

definition should_send_full_context :: "int \<Rightarrow> nat \<Rightarrow> pystr list \<Rightarrow> bool" where
  "should_send_full_context current_round task_count recent_results =
     (if current_round mod full_context_interval = 0 then True
      else if task_count \<le> 3 then True
      else if recent_results \<noteq> [] \<and> results_notable recent_results then True
      else False)"

text \<open>The status glyphs: U+2713, U+2192, U+2717.\<close>

definition get_status_icon :: "jvalue \<Rightarrow> pystr" where
  "get_status_icon status =
     (if status = JStr (ustr ''completed'') then [91, 10003, 93]
      else if status = JStr (ustr ''in-progress'') then [91, 8594, 93]
      else if status = JStr (ustr ''failed'') then [91, 10007, 93]
      else if status = JStr (ustr ''pending'') then ustr ''[ ]''
      else ustr ''[?]'')"

definition recent_task_lines :: "task \<Rightarrow> pystr list" where
  "recent_task_lines t =
     (get_status_icon (t_status t) @ ustr '' '' @ py_str_int (t_id t) @ ustr ''. '' @
        py_str (t_description t)) #
     (if t_subtasks t \<noteq> [] then
        (let result = s_result (last (t_subtasks t))
         in if result \<noteq> [] \<and> length (py_strip result) > 0
            then [ustr ''   -> '' @ ellipsis 80 result] else [])
      else [])"

definition get_recent_summary :: "task_tree \<Rightarrow> pystr" where
  "get_recent_summary tr =
     (if tasks tr = [] then ustr ''No tasks completed yet''
      else py_join [10]
             (concat (map recent_task_lines
                (drop (length (tasks tr) - max_recent_tasks) (tasks tr)))))"

text \<open>
  \<open>TaskTree.get_tree_display\<close> of \<open>task_manager.py\<close>, the module the agent takes its tree from.
  The clipboard glyph is U+1F4CB.
\<close>

definition display_icon :: "jvalue \<Rightarrow> pystr" where
  "display_icon status =
     (if status = JStr (ustr ''completed'') then [91, 10003, 93]
      else if status = JStr (ustr ''in-progress'') then [91, 8594, 93]
      else if status = JStr (ustr ''failed'') then [91, 10007, 93]
      else if status = JStr (ustr ''pending'') then ustr ''[~]''
      else ustr ''[?]'')"

definition str_of_id :: "pyid \<Rightarrow> pystr" where
  "str_of_id i = (case i of IdInt n \<Rightarrow> py_str_int n | IdStr s \<Rightarrow> s)"

definition display_subtask_lines :: "subtask \<Rightarrow> pystr list" where
  "display_subtask_lines sub =
     (if s_tool sub = ustr ''task_manager'' then []
      else
        let result = s_result sub;
            subtask_status =
              (if py_in (ustr ''success'') (py_lower result) \<or> py_in [10003] result then [10003]
               else if py_in (ustr ''error'') (py_lower result) \<or> py_in [10007] result
                       \<or> py_in (ustr ''failed'') (py_lower result) then [10007]
               else ustr ''?'')
        in [ustr ''    '' @ str_of_id (s_id sub) @ ustr ''. Used '' @ s_tool sub @ ustr '' '' @
            subtask_status @ ustr '' - '' @ ellipsis 80 result])"

definition display_task_lines :: "task \<Rightarrow> pystr list" where
  "display_task_lines t =
     (display_icon (t_status t) @ ustr '' '' @ py_str_int (t_id t) @ ustr ''. '' @
        py_str (t_description t)) #
     concat (map display_subtask_lines (t_subtasks t))"

definition get_tree_display :: "task_tree \<Rightarrow> pystr" where
  "get_tree_display tr =
     (if tasks tr = [] then 128203 # ustr '' No tasks yet''
      else py_join [10]
             ([128203 # ustr '' '' @ challenge_title tr @ ustr '' - Task Progress'',
               replicate 50 61] @
              concat (map display_task_lines (tasks tr))))"

definition is_truncated_in_tree :: "pystr \<Rightarrow> task list \<Rightarrow> bool" where
  "is_truncated_in_tree result recent_tasks =
     (let result_prefix = py_strip (take 80 result)
      in list_ex (\<lambda>task. list_ex (\<lambda>subtask.
           s_result subtask \<noteq> [] \<and> py_in result_prefix (s_result subtask)
           \<and> length result > length (s_result subtask)) (t_subtasks task)) recent_tasks)"

definition important_patterns :: "piece list list" where
  "important_patterns =
     [ lits ''pico'' @ [opt (InSet (chars ''c:'')), opt (InSet (chars ''t:''))] @ lits ''f{'' @
         [plus1 (NotInSet (chars ''}''))] @ lits ''}'',
       lits ''flag'' @ [star Space, one (InSet (chars ''=:''))],
       lits ''ctf{'',
       lits ''error'' @ [star Space] @ lits '':'',
       lits ''traceback'',
       lits ''exception'',
       lits ''failed'',
       lits ''extracted'' @ [plus1 Space] @ lits ''character'' @
         [opt (Lit (of_char CHR ''s'')), star Space, one (InSet (chars '':=''))],
       lits ''decoded'' @ [star Space, one (InSet (chars '':=''))],
       lits ''output'' @ [star Space, one (InSet (chars '':=''))],
       lits ''result'' @ [star Space, one (InSet (chars '':=''))],
       lits ''character'' @ [opt (Lit (of_char CHR ''s'')), plus1 Space] @ lits ''from'',
       lits ''combination'',
       lits ''potential'' @ [plus1 Space] @ lits ''flag'' ]"

definition is_important_result :: "pystr \<Rightarrow> bool" where
  "is_important_result result =
     (if result = [] then False
      else if any_pattern_found False important_patterns (py_lower result) then True
      else length result > 200)"

definition get_truncated_important_results :: "task_tree \<Rightarrow> pystr list \<Rightarrow> pystr list" where
  "get_truncated_important_results tr recent_results =
     (if recent_results = [] then []
      else
        let recent_tasks = (if length (tasks tr) \<ge> 2 then drop (length (tasks tr) - 2) (tasks tr)
                            else tasks tr);
            latest_result = last recent_results;
            first = (if latest_result \<noteq> [] \<and> length (py_strip latest_result) > 80
                        \<and> is_truncated_in_tree latest_result recent_tasks
                     then [latest_result] else []);
            others = butlast (drop (length recent_results - 3) recent_results)
        in first @
           filter (\<lambda>result. \<not> (result = [] \<or> length (py_strip result) \<le> 80)
                     \<and> is_important_result result
                     \<and> is_truncated_in_tree result recent_tasks) others)"

record context_data =
  context_type :: pystr
  content :: pystr
  token_estimate :: nat
  tasks_included :: "nat option"
  truncated_results :: "pystr list"

text \<open>The tree argument is \<open>None\<close> until the agent has set a challenge; a \<open>TaskTree\<close> object is
  always true, with or without tasks.\<close>

definition get_optimized_task_context ::
  "task_tree option \<Rightarrow> int \<Rightarrow> pystr list \<Rightarrow> context_data" where
  "get_optimized_task_context task_tree current_round recent_results =
     (case task_tree of
        None \<Rightarrow>
          \<lparr>context_type = ustr ''empty'', content = ustr ''No tasks recorded yet'',
           token_estimate = 20, tasks_included = None, truncated_results = []\<rparr>
      | Some tr \<Rightarrow>
          let task_count = length (tasks tr);
              send_full = should_send_full_context current_round task_count recent_results
          in if send_full then
               (let full_content = get_tree_display tr
                in \<lparr>context_type = ustr ''full'', content = full_content,
                    token_estimate = length full_content div 4,
                    tasks_included = Some task_count,
                    truncated_results = get_truncated_important_results tr recent_results\<rparr>)
             else
               (let recent_content = get_recent_summary tr
                in \<lparr>context_type = ustr ''recent'', content = recent_content,
                    token_estimate = length recent_content div 4,
                    tasks_included = Some (min max_recent_tasks task_count),
                    truncated_results = []\<rparr>))"

section \<open>The agent (\<open>ctf_agent.py\<close>)\<close>

record conversation_round =
  round_number :: int
  human_input :: pystr
  ai_response :: pystr
  input_tokens :: nat
  output_tokens :: nat
  tools_used :: "pystr list"
  timestamp :: pystr
  input_source :: pystr

text \<open>
  What the agent executor returns: the output text and, when the key is present and not
  \<open>None\<close>, the intermediate steps, each with the tool name, the tool input and the raw
  observation.
\<close>

record llm_response =
  response_output :: pystr
  intermediate_steps :: "(pystr \<times> pystr \<times> pystr) list option"


text \<open>The fields of \<open>CTFAgent\<close> the round touches; \<open>chat_messages\<close> holds the contents of
  \<open>self.memory.chat_memory.messages\<close>.\<close>

record agent =
  current_round :: int
  chat_messages :: "pystr list"
  conversation_history :: "conversation_round list"
  last_tool_results :: "pystr list"
  last_flag_candidate :: "pystr option"
  task_tree :: "task_tree option"

definition CTFAgent_init :: agent where
  "CTFAgent_init =
     \<lparr>current_round = 0, chat_messages = [], conversation_history = [],
      last_tool_results = [], last_flag_candidate = None, task_tree = None\<rparr>"












text \<open>
  \<open>CTFAgent.get_continue_prompt\<close>, up to the call of the prompt registry: the result holds
  the task summary and the tool results handed to the template.
\<close>

record continue_args =
  task_summary :: pystr
  filtered_results :: "pystr list"
  show_all_flags :: bool

definition success_prefix :: pystr where
  "success_prefix = ustr ''{'' @ quoted ''success''"

definition sendable :: "pystr \<Rightarrow> bool" where
  "sendable result \<longleftrightarrow>
     result \<noteq> [] \<and> py_strip result \<noteq> [] \<and> \<not> startswith result success_prefix"

definition get_continue_prompt :: "agent \<Rightarrow> pystr list \<Rightarrow> bool \<Rightarrow> continue_args" where
  "get_continue_prompt st tool_results flags =
     (let context_data = get_optimized_task_context (task_tree st) (current_round st) tool_results;
          filtered =
            (if tool_results \<noteq> [] then
               (let latest_result = last tool_results
                in (if sendable latest_result then [latest_result] else []) @
                   (if context_type context_data = ustr ''recent''
                    then filter sendable (butlast tool_results)
                    else if context_type context_data = ustr ''full''
                    then filter (\<lambda>result. result \<noteq> latest_result)
                           (truncated_results context_data)
                    else []))
             else [])
      in \<lparr>task_summary = content context_data, filtered_results = filtered,
          show_all_flags = flags\<rparr>)"

section \<open>Vocabulary of the properties and example inputs\<close>

text \<open>
  What attaching a tool result may change: \<open>frame_ok ts ts' i sub\<close> says that \<open>ts'\<close> has the
  tasks of \<open>ts\<close> with the same ids, descriptions and statuses, that task \<open>i\<close> has gained the
  subtask \<open>sub\<close> at the end of its list, and that every other task is unchanged.
\<close>

definition frame_ok :: "task list \<Rightarrow> task list \<Rightarrow> nat \<Rightarrow> subtask \<Rightarrow> bool" where
  "frame_ok ts ts' i sub \<longleftrightarrow>
     i < length ts \<and> length ts' = length ts \<and> map t_id ts' = map t_id ts
     \<and> map t_description ts' = map t_description ts \<and> map t_status ts' = map t_status ts
     \<and> t_subtasks (ts' ! i) = t_subtasks (ts ! i) @ [sub]
     \<and> (\<forall>j<length ts. j \<noteq> i \<longrightarrow> ts' ! j = ts ! j)"

text \<open>
  The dispatch target, in the words of the task tree: the last task in progress and, when no task
  is in progress, the first task of highest id (\<open>task_tree.py\<close>) or the last task of the list
  (\<open>task_manager.py\<close>).
\<close>

definition last_in_progress :: "task list \<Rightarrow> nat \<Rightarrow> bool" where
  "last_in_progress ts i \<longleftrightarrow>
     i < length ts \<and> t_status (ts ! i) = JStr (ustr ''in-progress'')
     \<and> (\<forall>j<length ts. i < j \<longrightarrow> t_status (ts ! j) \<noteq> JStr (ustr ''in-progress''))"

definition none_in_progress :: "task list \<Rightarrow> bool" where
  "none_in_progress ts \<longleftrightarrow> (\<forall>j<length ts. t_status (ts ! j) \<noteq> JStr (ustr ''in-progress''))"

definition first_of_highest_id :: "task list \<Rightarrow> nat \<Rightarrow> bool" where
  "first_of_highest_id ts i \<longleftrightarrow>
     i < length ts \<and> (\<forall>j<length ts. t_id (ts ! j) \<le> t_id (ts ! i))
     \<and> (\<forall>j<i. t_id (ts ! j) < t_id (ts ! i))"

definition task_tree_dispatch_target :: "task list \<Rightarrow> nat \<Rightarrow> bool" where
  "task_tree_dispatch_target ts i \<longleftrightarrow>
     last_in_progress ts i \<or> none_in_progress ts \<and> first_of_highest_id ts i"

definition task_manager_dispatch_target :: "task list \<Rightarrow> nat \<Rightarrow> bool" where
  "task_manager_dispatch_target ts i \<longleftrightarrow>
     last_in_progress ts i \<or> none_in_progress ts \<and> Suc i = length ts"

text \<open>A tree with two tasks, the first in progress.\<close>

definition tr0 :: task_tree where
  "tr0 = \<lparr>challenge_title = ustr ''C'', storage_path = ustr ''p'',
     tasks = [new_task 1 (ustr ''a'') (ustr ''in-progress'') (ustr ''t''),
              new_task 2 (ustr ''b'') (ustr ''pending'') (ustr ''t'')],
     current_task_id = 2\<rparr>"

text \<open>The task ids named by the arrow directives of a response, in the order parsed.\<close>

definition parsed_arrow_ids :: "pystr \<Rightarrow> int list" where
  "parsed_arrow_ids s =
     List.map_filter (\<lambda>m. py_int (fst m)) (findall_tasks s)"

text \<open>The id a structured update names, \<open>None\<close> when the program numbers the task itself.\<close>

fun explicit_task_id :: "jvalue \<Rightarrow> int option" where
  "explicit_task_id JNull = None"
| "explicit_task_id (JBool b) = (if b then Some 1 else None)"
| "explicit_task_id (JInt n) = (if n = 0 then None else Some n)"
| "explicit_task_id (JStr s) = (if s = [] then None else py_int s)"

text \<open>
  The updates a call reads from the structured reports of a response, in order: those of each
  report up to the first element that is not an object, and no report after one that raised.
  \<open>apply_updates\<close> is the loop body applied to them in turn.
\<close>

fun read_entries :: "update_entry list \<Rightarrow> update list \<times> bool" where
  "read_entries [] = ([], False)"
| "read_entries (NotAnObject # entries) = ([], True)"
| "read_entries (Update u # entries) =
     (case read_entries entries of (us, raised) \<Rightarrow> (u # us, raised))"

fun read_reports :: "(pystr \<Rightarrow> json_doc) \<Rightarrow> pystr list \<Rightarrow> update list" where
  "read_reports json_loads [] = []"
| "read_reports json_loads (j # js) =
     (case json_loads (clean_json_input j) of
        JSONDecodeError \<Rightarrow> read_reports json_loads js
      | NotAReport \<Rightarrow> []
      | Report entries \<Rightarrow>
          (case read_entries entries of
             (us, raised) \<Rightarrow> if raised then us else us @ read_reports json_loads js))"

definition reports :: "(pystr \<Rightarrow> json_doc) \<Rightarrow> pystr \<Rightarrow> update list" where
  "reports json_loads s = read_reports json_loads (findall_json s)"

fun apply_updates ::
  "pystr \<Rightarrow> update list \<Rightarrow> task list \<Rightarrow> int \<Rightarrow> nat \<Rightarrow> task list \<times> int \<times> nat" where
  "apply_updates now [] ts watermark extracted_count = (ts, watermark, extracted_count)"
| "apply_updates now (u # us) ts watermark extracted_count =
     (case task_manager_apply_update now u ts watermark extracted_count of
        (ts', watermark', extracted_count') \<Rightarrow>
          apply_updates now us ts' watermark' extracted_count')"

definition watermark_bounds :: "task_tree \<Rightarrow> bool" where
  "watermark_bounds tr \<longleftrightarrow> (\<forall>t\<in>set (tasks tr). t_id t \<le> current_task_id tr)"

abbreviation (input) arrow_ids :: "(pystr \<times> pystr \<times> pystr) list \<Rightarrow> int list" where
  "arrow_ids ms \<equiv> List.map_filter (\<lambda>m. py_int (fst m)) ms"

text \<open>The ids named by the structured updates of a response, and all the ids a call parses.\<close>

definition named_ids :: "update list \<Rightarrow> int list" where
  "named_ids us = List.map_filter (\<lambda>u. explicit_task_id (u_task_id u)) us"

definition parsed_task_ids :: "(pystr \<Rightarrow> json_doc) \<Rightarrow> pystr \<Rightarrow> int list" where
  "parsed_task_ids json_loads s =
     (if parsed_arrow_ids s \<noteq> [] then parsed_arrow_ids s else named_ids (reports json_loads s))"

text \<open>
  The status an arrow directive gives task \<open>n\<close>: that of the last directive for \<open>n\<close> among
  those the pattern finds in the response, in lower case.  \<open>task_of_id n ts\<close> are the tasks of
  \<open>ts\<close> with the id \<open>n\<close>.
\<close>

definition last_status_for :: "int \<Rightarrow> (pystr \<times> pystr \<times> pystr) list \<Rightarrow> pystr option" where
  "last_status_for n ms =
     (case filter (\<lambda>m. py_int (fst m) = Some n) ms of
        [] \<Rightarrow> None
      | m # ms' \<Rightarrow> Some (py_lower (snd (snd (last (m # ms'))))))"

definition task_of_id :: "int \<Rightarrow> task list \<Rightarrow> task list" where
  "task_of_id n ts = filter (\<lambda>t. t_id t = n) ts"

text \<open>
  The text of an arrow directive for task 1 with the description \<open>d\<close> and the status word
  \<open>w\<close>, and the descriptions the pattern reads back as they are: not empty, on one line,
  without a hyphen, with no white space at either end.
\<close>

definition status_words :: "pystr list" where
  "status_words = [ustr ''completed'', ustr ''in-progress'', ustr ''failed'', ustr ''pending'']"

definition arrow_directive :: "pystr \<Rightarrow> pystr \<Rightarrow> pystr" where
  "arrow_directive d w = 8594 # ustr '' Task: 1. '' @ d @ ustr '' - '' @ w"

definition plain_description :: "pystr \<Rightarrow> bool" where
  "plain_description d \<longleftrightarrow>
     d \<noteq> [] \<and> \<not> py_isspace (hd d) \<and> \<not> py_isspace (last d) \<and> 10 \<notin> set d \<and> 45 \<notin> set d"

text \<open>Example inputs: two arrow directives for task 1, and a structured report whose update
  names no task id, with the decoding of its JSON body.\<close>

definition directive_in_progress :: pystr where
  "directive_in_progress = 8594 # ustr '' Task: 1. Recon - in-progress''"

definition directive_completed :: pystr where
  "directive_completed = 8594 # ustr '' Task: 1. Recon - completed''"

definition report_body :: pystr where
  "report_body =
     ustr ''{'' @ quoted ''updates'' @ ustr '': [{'' @ quoted ''description'' @ ustr '': '' @
     quoted ''x'' @ ustr '', '' @ quoted ''status'' @ ustr '': '' @ quoted ''pending'' @
     ustr ''}]}''"

definition report_without_id :: pystr where
  "report_without_id =
     ustr ''<tool>task_manager</tool><input>'' @ report_body @ ustr ''</input>''"

definition decode_example :: "pystr \<Rightarrow> json_doc" where
  "decode_example s =
     (if s = report_body
      then Report [Update \<lparr>u_task_id = JNull, u_description = Some (JStr (ustr ''x'')),
                           u_status = Some (JStr (ustr ''pending'')), u_parent_id = JNull,
                           u_details = JNull\<rparr>]
      else JSONDecodeError)"

text \<open>A directive whose description holds a status word after a hyphen.\<close>

definition directive_with_status_word :: pystr where
  "directive_with_status_word = 8594 # ustr '' Task: 1. Retry - failed earlier - completed''"

text \<open>A tree as \<open>load_from_file\<close> leaves it after reading a file without \<open>current_task_id\<close>.\<close>

definition loaded_tree :: task_tree where
  "loaded_tree = \<lparr>challenge_title = ustr ''C'', storage_path = ustr ''p'',
     tasks = [new_task 1 (ustr ''Recon'') (ustr ''in-progress'') (ustr ''t'')],
     current_task_id = 0\<rparr>"







definition long_result :: pystr where
  "long_result = success_prefix @ replicate 600 97"

definition stored_tree :: task_tree where
  "stored_tree =
     fst (task_manager_add_tool_result (ustr ''t'') (TaskTree_init (ustr ''C'') (ustr ''p''))
            (ustr ''python'') (ustr ''x'') long_result)"

definition example_agent :: agent where
  "example_agent =
     CTFAgent_init\<lparr>current_round := 1, task_tree := Some stored_tree,
                    last_tool_results := [long_result]\<rparr>"

text \<open>The same result in a tree of four tasks, at round 7.\<close>

definition busy_tree :: task_tree where
  "busy_tree =
     fst (task_manager_add_tool_result (ustr ''t'')
            \<lparr>challenge_title = ustr ''C'', storage_path = ustr ''p'',
             tasks = [new_task 1 (ustr ''a'') (ustr ''completed'') (ustr ''t''),
                      new_task 2 (ustr ''b'') (ustr ''completed'') (ustr ''t''),
                      new_task 3 (ustr ''c'') (ustr ''completed'') (ustr ''t''),
                      new_task 4 (ustr ''d'') (ustr ''in-progress'') (ustr ''t'')],
             current_task_id = 4\<rparr>
            (ustr ''python'') (ustr ''x'') long_result)"

definition busy_agent :: agent where
  "busy_agent =
     CTFAgent_init\<lparr>current_round := 7, task_tree := Some busy_tree,
                    last_tool_results := [long_result]\<rparr>"

section \<open>Properties\<close>

subsection \<open>Evaluation rules and facts about the matcher\<close>

lemmas pattern_defs = lits_def one_def opt_def star_def plus1_def at_least_def lazy_star_def chars_def crange_def
lemma is_decimal_ascii: "c < 128 \<Longrightarrow> is_decimal c \<longleftrightarrow> 48 \<le> c \<and> c \<le> 57"
  by (auto simp: is_decimal_def decimal_ranges_def in_ranges_def)

lemma digit_value_ascii:
  "c < 128 \<Longrightarrow> digit_value c = (if 48 \<le> c \<and> c \<le> 57 then Some (c - 48) else None)"
  by (auto simp: digit_value_def decimal_ranges_def)

lemma lower_from_ascii:
  "\<forall>c\<in>set s. c < 128 \<Longrightarrow> lower_from before s = map ascii_lower s"
  by (induction s arbitrary: before) (simp_all add: lower_cp_def)

lemma py_lower_ascii: "\<forall>c\<in>set s. c < 128 \<Longrightarrow> py_lower s = map ascii_lower s"
  by (simp add: py_lower_def lower_from_ascii)

lemmas eval_defs = ustr_def in_ranges_def fold_cp_def ascii_upper_def ascii_lower_def lower_cp_def
  word_at_def Let_def py_lower_def is_decimal_ascii digit_value_ascii

text \<open>The tables at work: letters and digits outside ASCII.\<close>

lemma unicode_lower_examples:
  "py_lower (ustr ''TRACEBAC'' @ [8490]) = ustr ''traceback''"
  "py_lower [304] = [105, 775]"
  "py_lower [201, 99] = [233, 99]"
  by (simp_all add: eval_defs lower_rules_def)

lemma final_sigma_examples:
  "py_lower [913, 931] = [945, 962]"
  "py_lower [913, 931, 913] = [945, 963, 945]"
  "py_lower [931] = [963]"
  by (simp_all add: eval_defs lower_rules_def final_sigma_def cased_ranges_def
      case_ignorable_ranges_def)

lemma unicode_digit_examples:
  "py_int [1635, 1636] = Some 34"
  "py_int (ustr '' 1_0 '') = Some 10"
  "py_int [28, 49] = None"
  "py_int (ustr ''1__0'') = None"
  by (simp_all add: py_int_def int_space_def py_isspace_def digit_value_def decimal_ranges_def
      ustr_def)

lemma unicode_pattern_examples:
  "extract_flags ([112, 305, 99, 111] @ ustr ''CTF{ab}'') = [[112, 305, 99, 111] @ ustr ''CTF{ab}'']"
  "findall_tasks (8594 # ustr ''tas'' @ [8490] @ ustr '': '' @ [1635] @ ustr ''. x - Failed'')
   = [([1635], ustr ''x'', ustr ''Failed'')]"
  by (simp_all add: extract_flags_def findall_flags_def flag_pattern_def findall_tasks_def
      task_pattern_def pattern_defs eval_defs py_isspace_def is_decimal_def decimal_ranges_def)

lemma py_strip_id:
  assumes "s \<noteq> []" and "\<not> py_isspace (hd s)" and "\<not> py_isspace (last s)"
  shows "py_strip s = s"
proof -
  have a: "dropWhile py_isspace s = s" using assms(1,2) by (cases s) auto
  have b: "dropWhile py_isspace (rev s) = rev s"
    using assms(3) by (simp add: dropWhile_eq_self_iff hd_rev)
  show ?thesis by (simp add: py_strip_def a b)
qed


lemma remdups_snoc:
  "remdups (ys @ [x]) = filter (\<lambda>y. y \<noteq> x) (remdups ys) @ [x]"
  by (induction ys) auto

lemma keep_first_Cons:
  "rev (remdups (rev xs @ [x])) = x # filter (\<lambda>y. y \<noteq> x) (rev (remdups (rev xs)))"
  by (simp add: remdups_snoc rev_filter)

lemma unique_loop_eq:
  "seen = set acc \<Longrightarrow>
   unique_loop xs seen acc = acc @ filter (\<lambda>y. y \<notin> set acc) (rev (remdups (rev xs)))"
proof (induction xs arbitrary: seen acc)
  case Nil
  then show ?case by simp
next
  case (Cons x xs)
  show ?case
  proof (cases "x \<in> set acc")
    case True
    have "filter (\<lambda>y. y \<notin> set acc) (filter (\<lambda>y. y \<noteq> x) (rev (remdups (rev xs))))
          = filter (\<lambda>y. y \<notin> set acc) (rev (remdups (rev xs)))"
      using True by (auto intro: filter_cong)
    with True Cons show ?thesis by (simp add: keep_first_Cons)
  next
    case False
    have "filter (\<lambda>y. y \<notin> set (acc @ [x])) (rev (remdups (rev xs)))
          = filter (\<lambda>y. y \<notin> set acc) (filter (\<lambda>y. y \<noteq> x) (rev (remdups (rev xs))))"
      by (auto intro: filter_cong)
    with False Cons.prems Cons.IH [of "insert x seen" "acc @ [x]"] show ?thesis
      by (simp add: keep_first_Cons)
  qed
qed

lemma dict_fromkeys_eq:
  "dict_fromkeys xs keys = keys @ filter (\<lambda>y. y \<notin> set keys) (rev (remdups (rev xs)))"
proof (induction xs arbitrary: keys)
  case Nil
  then show ?case by simp
next
  case (Cons x xs)
  show ?case
  proof (cases "x \<in> set keys")
    case True
    have "filter (\<lambda>y. y \<notin> set keys) (filter (\<lambda>y. y \<noteq> x) (rev (remdups (rev xs))))
          = filter (\<lambda>y. y \<notin> set keys) (rev (remdups (rev xs)))"
      using True by (auto intro: filter_cong)
    with True Cons show ?thesis by (simp add: keep_first_Cons)
  next
    case False
    have "filter (\<lambda>y. y \<notin> set (keys @ [x])) (rev (remdups (rev xs)))
          = filter (\<lambda>y. y \<notin> set keys) (filter (\<lambda>y. y \<noteq> x) (rev (remdups (rev xs))))"
      by (auto intro: filter_cong)
    with False Cons.IH [of "keys @ [x]"] show ?thesis
      by (simp add: keep_first_Cons)
  qed
qed

lemma try_lengths_SomeD:
  "try_lengths ic ps s ks = Some g \<Longrightarrow>
   \<exists>k\<in>set ks. \<exists>g'. match_here ic ps (drop k s) = Some g' \<and> g = take k s # g'"
  by (induction ks) (auto split: option.splits)

lemma candidates_Rep:
  "k \<in> set (candidates ic (Rep c lo hi gr) s) \<Longrightarrow>
   lo \<le> k \<and> k \<le> length (takeWhile (cmatch ic c) s)"
  by (auto simp: Let_def split: if_splits option.splits)

lemma match_needs_lit:
  "match_here ic ps s = Some g \<Longrightarrow> Rep (Lit l) (Suc n) hi gr \<in> set ps \<Longrightarrow>
   (\<forall>c. cmatch ic (Lit l) c \<longrightarrow> c = l) \<Longrightarrow> l \<in> set s"
proof (induction ps arbitrary: s g)
  case Nil
  then show ?case by simp
next
  case (Cons p ps)
  from Cons.prems(1) obtain k g' where k: "k \<in> set (candidates ic p s)"
    and g': "match_here ic ps (drop k s) = Some g'"
    by (auto dest: try_lengths_SomeD)
  show ?case
  proof (cases "p = Rep (Lit l) (Suc n) hi gr")
    case True
    with k have "Suc n \<le> length (takeWhile (cmatch ic (Lit l)) s)"
      using candidates_Rep by fastforce
    then obtain c s' where s: "s = c # s'" and "cmatch ic (Lit l) c"
      by (cases s) (auto split: if_splits)
    with Cons.prems(3) show ?thesis by auto
  next
    case False
    with Cons.prems(2) have "Rep (Lit l) (Suc n) hi gr \<in> set ps" by simp
    from Cons.IH [OF g' this Cons.prems(3)] show ?thesis by (rule in_set_dropD)
  qed
qed

lemma findall_no_lit:
  assumes p: "Rep (Lit l) (Suc n) hi gr \<in> set ps"
    and ex: "\<forall>c. cmatch ic (Lit l) c \<longrightarrow> c = l"
  shows "l \<notin> set s \<Longrightarrow> re_findall ic ps s = []"
proof (induction s)
  case Nil
  have "match_here ic ps [] = None"
  proof (cases "match_here ic ps []")
    case (Some g)
    from match_needs_lit [OF Some p ex] show ?thesis by simp
  qed simp
  then show ?case by simp
next
  case (Cons c s)
  have "match_here ic ps (c # s) = None"
  proof (cases "match_here ic ps (c # s)")
    case (Some g)
    from match_needs_lit [OF Some p ex] Cons.prems show ?thesis by simp
  qed simp
  with Cons show ?case by simp
qed

lemma lit_open_brace: "\<forall>c. cmatch ic (Lit 123) c \<longrightarrow> c = 123"
  by (auto simp: fold_cp_def split: if_splits)

lemma lit_close_brace: "\<forall>c. cmatch ic (Lit 125) c \<longrightarrow> c = 125"
  by (auto simp: fold_cp_def split: if_splits)

lemma findall_flags_no_brace:
  assumes "123 \<notin> set t \<or> 125 \<notin> set t"
  shows "findall_flags t = []"
proof -
  have a: "Rep (Lit 123) (Suc 0) (Some 1) True \<in> set flag_pattern"
    by (simp add: flag_pattern_def pattern_defs)
  have b: "Rep (Lit 125) (Suc 0) (Some 1) True \<in> set flag_pattern"
    by (simp add: flag_pattern_def pattern_defs)
  from assms show ?thesis
  proof
    assume "123 \<notin> set t"
    from findall_no_lit [OF a lit_open_brace this] show ?thesis
      by (simp add: findall_flags_def)
  next
    assume "125 \<notin> set t"
    from findall_no_lit [OF b lit_close_brace this] show ?thesis
      by (simp add: findall_flags_def)
  qed
qed

subsection \<open>Flag detection and the placeholder filter\<close>

lemma extract_flags_eq: "extract_flags t = rev (remdups (rev (findall_flags t)))"
  by (simp add: extract_flags_def unique_loop_eq)

lemma findall_empty_iff: "re_findall ic ps s = [] \<longleftrightarrow> re_search ic ps s = None"
proof (induction s)
  case Nil
  then show ?case by (cases "match_here ic ps []") simp_all
next
  case (Cons c s)
  then show ?case by (cases "match_here ic ps (c # s)") simp_all
qed

text \<open>
  Claim C8.  The goal-token detector finds \<open>picoCTF{abc_123}\<close> and a variant whose prefix has
  a separator substituted and another case; it returns the empty list exactly when the
  pattern matches nowhere in the text, so on every text without an opening or without a
  closing brace; and on every text it returns the matches of the pattern in the order of their
  first occurrence, each once.  \<open>FlagValidator._extract_flags\<close> and
  \<open>CTFAgent._detect_flags\<close> compute the same list, and the agent keeps the last candidate.
\<close>

theorem flag_detector:
  "extract_flags (ustr ''picoCTF{abc_123}'') = [ustr ''picoCTF{abc_123}'']
   \<and> extract_flags (ustr ''PICOC:f{abc_123}'') = [ustr ''PICOC:f{abc_123}'']
   \<and> extract_flags (ustr ''a picoCTF{x1} b pico:TF{y2} c picoCTF{x1} d'')
       = [ustr ''picoCTF{x1}'', ustr ''pico:TF{y2}'']
   \<and> (extract_flags t = [] \<longleftrightarrow> re_search True flag_pattern t = None)
   \<and> (of_char CHR ''{'' \<notin> set t \<or> of_char CHR ''}'' \<notin> set t \<longrightarrow> extract_flags t = [])
   \<and> extract_flags t = rev (remdups (rev (findall_flags t)))
   \<and> distinct (extract_flags t)
   \<and> set (extract_flags t) = set (findall_flags t)
   \<and> fst (detect_flags r rs c) = extract_flags (r @ ustr '' '' @ py_join (ustr '' '') rs)
   \<and> snd (detect_flags r rs c) =
       (if fst (detect_flags r rs c) = [] then c else Some (last (fst (detect_flags r rs c))))"
proof -
  have e1: "findall_flags (ustr ''picoCTF{abc_123}'') = [ustr ''picoCTF{abc_123}'']"
    by (simp add: findall_flags_def flag_pattern_def pattern_defs eval_defs)
  have e2: "findall_flags (ustr ''PICOC:f{abc_123}'') = [ustr ''PICOC:f{abc_123}'']"
    by (simp add: findall_flags_def flag_pattern_def pattern_defs eval_defs)
  have e3: "findall_flags (ustr ''a picoCTF{x1} b pico:TF{y2} c picoCTF{x1} d'')
            = [ustr ''picoCTF{x1}'', ustr ''pico:TF{y2}'', ustr ''picoCTF{x1}'']"
    by (simp add: findall_flags_def flag_pattern_def pattern_defs eval_defs)
  have n: "of_char CHR ''{'' \<notin> set t \<or> of_char CHR ''}'' \<notin> set t \<longrightarrow> extract_flags t = []"
    using findall_flags_no_brace [of t] by (simp add: extract_flags_eq)
  have m: "extract_flags t = [] \<longleftrightarrow> re_search True flag_pattern t = None"
    by (simp add: extract_flags_eq findall_flags_def findall_empty_iff)
  have d: "fst (detect_flags r rs c) = extract_flags (r @ ustr '' '' @ py_join (ustr '' '') rs)"
    by (simp add: detect_flags_def Let_def dict_fromkeys_eq extract_flags_eq)
  have l: "snd (detect_flags r rs c) =
       (if fst (detect_flags r rs c) = [] then c else Some (last (fst (detect_flags r rs c))))"
    by (simp add: detect_flags_def Let_def)
  have u: "distinct (extract_flags t)" "set (extract_flags t) = set (findall_flags t)"
    by (simp_all add: extract_flags_eq)
  have x: "extract_flags (ustr ''picoCTF{abc_123}'') = [ustr ''picoCTF{abc_123}'']"
    "extract_flags (ustr ''PICOC:f{abc_123}'') = [ustr ''PICOC:f{abc_123}'']"
    "extract_flags (ustr ''a picoCTF{x1} b pico:TF{y2} c picoCTF{x1} d'')
       = [ustr ''picoCTF{x1}'', ustr ''pico:TF{y2}'']"
    using e1 e2 e3 by (simp_all add: extract_flags_eq ustr_def)
  from x m n u d l extract_flags_eq [of t] show ?thesis by blast
qed

theorem flag_detector_witness:
  "of_char CHR ''{'' \<notin> set (ustr ''no flag in here'')
   \<and> extract_flags (ustr ''no flag in here'') = []"
  using flag_detector [of "ustr ''no flag in here''"] by (simp add: ustr_def)

lemma takeWhile_body:
  "125 \<notin> set body \<Longrightarrow>
   takeWhile (cmatch False (NotInSet [(125, 125)])) (body @ [125]) = body"
  by (induction body) (auto simp: in_ranges_def)

lemma content_match:
  assumes "body \<noteq> []" and "125 \<notin> set body"
  shows "re_search False content_pattern (ustr ''picoCTF{'' @ body @ ustr ''}'')
         = Some [[112], [105], [99], [111], [67], [84], [70], [123], body, [125]]"
proof -
  have len: "1 \<le> length body" using assms(1) by (cases body) auto
  have c: "candidates False (Rep (NotInSet [(125, 125)]) 1 None True) (body @ [125])
           = length body # rev [1..<length body]"
    using len assms(1) by (simp add: takeWhile_body [OF assms(2)] Let_def)
  have "match_here False [Rep (NotInSet [(125, 125)]) 1 None True, Rep (Lit 125) 1 (Some 1) True]
           (body @ [125])
         = try_lengths False [Rep (Lit 125) 1 (Some 1) True] (body @ [125])
             (candidates False (Rep (NotInSet [(125, 125)]) 1 None True) (body @ [125]))"
    by (simp only: match_here.simps)
  also have "\<dots> = try_lengths False [Rep (Lit 125) 1 (Some 1) True] (body @ [125])
                     (length body # rev [1..<length body])"
    by (simp only: c)
  also have "\<dots> = Some [body, [125]]"
    by simp
  finally have m: "match_here False
      [Rep (NotInSet [(125, 125)]) 1 None True, Rep (Lit 125) 1 (Some 1) True] (body @ [125])
    = Some [body, [125]]" .
  show ?thesis
    using m by (simp add: content_pattern_def pattern_defs ustr_def)
qed

text \<open>
  Claim C9, as amended.  \<open>is_placeholder_flag\<close> holds of \<open>picoCTF{...}\<close>, \<open>picoCTF{FLAG}\<close> and
  \<open>picoCTF{xxxx}\<close>, fails of \<open>picoCTF{thisislikelyreal_42}\<close>, and holds of every candidate
  \<open>picoCTF{body}\<close> (the shape the caller extracts before it asks) whose body is shorter than
  3 or longer than 100 characters.
\<close>

theorem placeholder_filter:
  "is_placeholder_flag (ustr ''picoCTF{...}'')
   \<and> is_placeholder_flag (ustr ''picoCTF{FLAG}'')
   \<and> is_placeholder_flag (ustr ''picoCTF{xxxx}'')
   \<and> \<not> is_placeholder_flag (ustr ''picoCTF{thisislikelyreal_42}'')
   \<and> (body \<noteq> [] \<and> of_char CHR ''}'' \<notin> set body \<and> (length body < 3 \<or> length body > 100)
        \<longrightarrow> is_placeholder_flag (ustr ''picoCTF{'' @ body @ ustr ''}''))"
proof -
  have a: "is_placeholder_flag (ustr ''picoCTF{...}'')"
    by (simp add: is_placeholder_flag_def invalid_patterns_def pattern_defs eval_defs)
  have b: "is_placeholder_flag (ustr ''picoCTF{FLAG}'')"
    by (simp add: is_placeholder_flag_def invalid_patterns_def pattern_defs eval_defs)
  have c: "is_placeholder_flag (ustr ''picoCTF{xxxx}'')"
    by (simp add: is_placeholder_flag_def invalid_patterns_def pattern_defs eval_defs)
  have d: "\<not> is_placeholder_flag (ustr ''picoCTF{thisislikelyreal_42}'')"
    by (simp add: is_placeholder_flag_def invalid_patterns_def content_pattern_def pattern_defs eval_defs)
  have e: "is_placeholder_flag (ustr ''picoCTF{'' @ body @ ustr ''}'')"
    if "body \<noteq> []" "125 \<notin> set body" "length body < 3 \<or> length body > 100"
    using that content_match [OF that(1,2)] by (simp add: is_placeholder_flag_def)
  show ?thesis using a b c d e by simp
qed

theorem placeholder_filter_witness:
  "ustr ''ab'' \<noteq> [] \<and> of_char CHR ''}'' \<notin> set (ustr ''ab'') \<and> length (ustr ''ab'') < 3
   \<and> is_placeholder_flag (ustr ''picoCTF{'' @ ustr ''ab'' @ ustr ''}'')"
  using placeholder_filter [of "ustr ''ab''"] by (simp add: ustr_def)

text \<open>
  Claim C9 as stated fails for a candidate of the detector whose prefix has a separator
  substituted: every pattern of the filter spells the prefix \<open>picoCTF\<close>, so the body of two
  characters is not measured.
\<close>

theorem placeholder_filter_skips_variant:
  "extract_flags (ustr ''picoC:F{ab}'') = [ustr ''picoC:F{ab}'']
   \<and> length (ustr ''ab'') < 3
   \<and> \<not> is_placeholder_flag (ustr ''picoC:F{ab}'')"
proof -
  have "findall_flags (ustr ''picoC:F{ab}'') = [ustr ''picoC:F{ab}'']"
    by (simp add: findall_flags_def flag_pattern_def pattern_defs eval_defs)
  then have a: "extract_flags (ustr ''picoC:F{ab}'') = [ustr ''picoC:F{ab}'']"
    by (simp add: extract_flags_eq ustr_def)
  have b: "\<not> is_placeholder_flag (ustr ''picoC:F{ab}'')"
    by (simp add: is_placeholder_flag_def invalid_patterns_def content_pattern_def pattern_defs
        eval_defs)
  from a b show ?thesis by (simp add: ustr_def)
qed

subsection \<open>Attaching a tool result\<close>

lemma find_last_in_progress_Some:
  "find_last_in_progress ts = Some i \<Longrightarrow> i < length ts \<and> t_status (ts ! i) = JStr (ustr ''in-progress'')"
  by (induction ts arbitrary: i) (auto split: option.splits if_splits)

lemma argmax_from_bound:
  "best < i \<Longrightarrow> argmax_from ts i best k < i + length ts"
proof (induction ts arbitrary: i best k)
  case Nil
  then show ?case by simp
next
  case (Cons t ts)
  have "argmax_from ts (Suc i) i (t_id t) < Suc i + length ts"
    using Cons.IH [of i "Suc i"] by simp
  moreover have "argmax_from ts (Suc i) best k < Suc i + length ts"
    using Cons.IH [of best "Suc i"] Cons.prems by simp
  ultimately show ?case by simp
qed

lemma max_id_index_bound: "ts \<noteq> [] \<Longrightarrow> max_id_index ts < length ts"
  using argmax_from_bound [of 0 1] by (cases ts) (auto simp: max_id_index_def)

lemma add_subtask_frame:
  assumes "i < length ts"
  shows "length (add_subtask ts i sub) = length ts"
    and "map t_id (add_subtask ts i sub) = map t_id ts"
    and "map t_description (add_subtask ts i sub) = map t_description ts"
    and "map t_status (add_subtask ts i sub) = map t_status ts"
    and "t_subtasks (add_subtask ts i sub ! i) = t_subtasks (ts ! i) @ [sub]"
    and "\<forall>j<length ts. j \<noteq> i \<longrightarrow> add_subtask ts i sub ! j = ts ! j"
  using assms by (simp_all add: add_subtask_def map_update list_update_same_conv)

lemma task_tree_target:
  "ts \<noteq> [] \<Longrightarrow> (case find_last_in_progress ts of Some i \<Rightarrow> i | None \<Rightarrow> max_id_index ts) < length ts"
  by (auto split: option.splits dest: find_last_in_progress_Some max_id_index_bound)

lemma task_manager_target:
  "ts \<noteq> [] \<Longrightarrow> (case find_last_in_progress ts of Some i \<Rightarrow> i | None \<Rightarrow> length ts - 1) < length ts"
  by (auto split: option.splits dest: find_last_in_progress_Some)

lemma find_last_in_progress_None:
  "find_last_in_progress ts = None \<Longrightarrow> none_in_progress ts"
proof (induction ts)
  case Nil
  then show ?case by (simp add: none_in_progress_def)
next
  case (Cons t ts)
  from Cons.prems have n: "find_last_in_progress ts = None" and s: "t_status t \<noteq> JStr (ustr ''in-progress'')"
    by (auto split: option.splits if_splits)
  from Cons.IH [OF n] s show ?case
    by (auto simp: none_in_progress_def nth_Cons split: nat.splits)
qed

lemma find_last_in_progress_last:
  "find_last_in_progress ts = Some i \<Longrightarrow> last_in_progress ts i"
proof (induction ts arbitrary: i)
  case Nil
  then show ?case by simp
next
  case (Cons t ts)
  show ?case
  proof (cases "find_last_in_progress ts")
    case None
    with Cons.prems have i: "i = 0" and s: "t_status t = JStr (ustr ''in-progress'')"
      by (auto split: if_splits)
    from find_last_in_progress_None [OF None] i s show ?thesis
      by (auto simp: last_in_progress_def none_in_progress_def nth_Cons split: nat.splits)
  next
    case (Some k)
    with Cons.prems have i: "i = Suc k" by simp
    from Cons.IH [OF Some] i show ?thesis
      by (auto simp: last_in_progress_def nth_Cons split: nat.splits)
  qed
qed

lemma last_in_progress_unique:
  "last_in_progress ts i \<Longrightarrow> last_in_progress ts j \<Longrightarrow> i = j"
  unfolding last_in_progress_def by (metis linorder_neqE_nat)

lemma first_of_highest_id_unique:
  "first_of_highest_id ts i \<Longrightarrow> first_of_highest_id ts j \<Longrightarrow> i = j"
  unfolding first_of_highest_id_def by (metis linorder_neqE_nat not_less)

lemma task_tree_dispatch_target_unique:
  "task_tree_dispatch_target ts i \<Longrightarrow> task_tree_dispatch_target ts j \<Longrightarrow> i = j"
  unfolding task_tree_dispatch_target_def
  using last_in_progress_unique first_of_highest_id_unique
  by (auto simp: last_in_progress_def none_in_progress_def)

lemma task_manager_dispatch_target_unique:
  "task_manager_dispatch_target ts i \<Longrightarrow> task_manager_dispatch_target ts j \<Longrightarrow> i = j"
  unfolding task_manager_dispatch_target_def
  using last_in_progress_unique
  by (auto simp: last_in_progress_def none_in_progress_def)

lemma argmax_from_first_highest:
  assumes "length pre = i" and "best < i" and "t_id ((pre @ ts) ! best) = k"
    and "\<forall>j<i. t_id ((pre @ ts) ! j) \<le> k" and "\<forall>j<best. t_id ((pre @ ts) ! j) < k"
  shows "first_of_highest_id (pre @ ts) (argmax_from ts i best k)"
  using assms
proof (induction ts arbitrary: pre i best k)
  case Nil
  then show ?case by (auto simp: first_of_highest_id_def)
next
  case (Cons t ts)
  have e: "pre @ t # ts = (pre @ [t]) @ ts" by simp
  have ti: "(pre @ t # ts) ! i = t" using Cons.prems(1) by (simp add: nth_append)
  show ?case
  proof (cases "t_id t > k")
    case True
    have "first_of_highest_id ((pre @ [t]) @ ts) (argmax_from ts (Suc i) i (t_id t))"
    proof (rule Cons.IH)
      show "length (pre @ [t]) = Suc i" using Cons.prems(1) by simp
      show "i < Suc i" by simp
      show "t_id (((pre @ [t]) @ ts) ! i) = t_id t" using ti by simp
      show "\<forall>j<Suc i. t_id (((pre @ [t]) @ ts) ! j) \<le> t_id t"
        using Cons.prems(4) True ti by (auto simp: less_Suc_eq)
      show "\<forall>j<i. t_id (((pre @ [t]) @ ts) ! j) < t_id t"
        using Cons.prems(4) True by auto
    qed
    with True show ?thesis by simp
  next
    case False
    have "first_of_highest_id ((pre @ [t]) @ ts) (argmax_from ts (Suc i) best k)"
    proof (rule Cons.IH)
      show "length (pre @ [t]) = Suc i" using Cons.prems(1) by simp
      show "best < Suc i" using Cons.prems(2) by simp
      show "t_id (((pre @ [t]) @ ts) ! best) = k" using Cons.prems(3) by simp
      show "\<forall>j<Suc i. t_id (((pre @ [t]) @ ts) ! j) \<le> k"
        using Cons.prems(4) False ti by (auto simp: less_Suc_eq)
      show "\<forall>j<best. t_id (((pre @ [t]) @ ts) ! j) < k"
        using Cons.prems(5) by simp
    qed
    with False show ?thesis by simp
  qed
qed

lemma max_id_index_first_highest:
  "ts \<noteq> [] \<Longrightarrow> first_of_highest_id ts (max_id_index ts)"
proof (cases ts)
  case Nil
  then show "ts \<noteq> [] \<Longrightarrow> ?thesis" by simp
next
  case (Cons t ts')
  have "first_of_highest_id ([t] @ ts') (argmax_from ts' 1 0 (t_id t))"
    by (rule argmax_from_first_highest) simp_all
  with Cons show ?thesis by (simp add: max_id_index_def)
qed

lemma task_tree_dispatch:
  "ts \<noteq> [] \<Longrightarrow>
   task_tree_dispatch_target ts (case find_last_in_progress ts of Some i \<Rightarrow> i | None \<Rightarrow> max_id_index ts)"
  by (auto simp: task_tree_dispatch_target_def split: option.splits
      dest: find_last_in_progress_None find_last_in_progress_last max_id_index_first_highest)

lemma task_manager_dispatch:
  "ts \<noteq> [] \<Longrightarrow>
   task_manager_dispatch_target ts (case find_last_in_progress ts of Some i \<Rightarrow> i | None \<Rightarrow> length ts - 1)"
  by (auto simp: task_manager_dispatch_target_def split: option.splits
      dest: find_last_in_progress_None find_last_in_progress_last)

lemma sorted_last_highest:
  "sorted (map t_id ts) \<Longrightarrow> Suc i = length ts \<Longrightarrow> j < length ts \<Longrightarrow> t_id (ts ! j) \<le> t_id (ts ! i)"
  using sorted_nth_mono [of "map t_id ts" j i] by (cases "j = i") auto

text \<open>
  Claim C10.  On a tree with at least one task, \<open>add_tool_result\<close> for a tool other than the
  task-reporting tool changes nothing of the tree but its tasks, adds and removes no task,
  keeps every id, description and status, and appends one subtask to one task, leaving every
  other task as it was.  That task is the dispatch target, and there is one only: the last task
  in progress; when no task is in progress, the first task of highest id in \<open>task_tree.py\<close>
  and the last task of the list in \<open>task_manager.py\<close>, which has the highest id when the list
  is sorted by id.  The value returned names the target.
\<close>

theorem add_tool_result_frame:
  assumes "tasks tr \<noteq> []"
  shows
  "(tool_name \<noteq> ustr ''report_task_update'' \<longrightarrow>
      (\<exists>i. task_tree_dispatch_target (tasks tr) i
         \<and> (\<forall>j. task_tree_dispatch_target (tasks tr) j \<longrightarrow> j = i)
         \<and> frame_ok (tasks tr)
              (tasks (fst (task_tree_add_tool_result now tr tool_name tool_input tool_result))) i
              \<lparr>s_id = IdStr (py_str_int (t_id (tasks tr ! i)) @ ustr ''.'' @
                        py_str_nat (length (t_subtasks (tasks tr ! i)) + 1)),
               s_tool = tool_name, s_input = ellipsis 100 tool_input,
               s_result = ellipsis 200 tool_result, s_timestamp = now\<rparr>
         \<and> snd (task_tree_add_tool_result now tr tool_name tool_input tool_result)
           = py_str_int (t_id (tasks tr ! i)) @ ustr ''.'' @
             py_str_nat (length (t_subtasks (tasks tr ! i)) + 1))
      \<and> (fst (task_tree_add_tool_result now tr tool_name tool_input tool_result))
            \<lparr>tasks := tasks tr\<rparr> = tr)
   \<and> (tool_name \<noteq> ustr ''task_manager'' \<longrightarrow>
      (\<exists>i. task_manager_dispatch_target (tasks tr) i
         \<and> (\<forall>j. task_manager_dispatch_target (tasks tr) j \<longrightarrow> j = i)
         \<and> (sorted (map t_id (tasks tr)) \<and> none_in_progress (tasks tr) \<longrightarrow>
              (\<forall>j<length (tasks tr). t_id (tasks tr ! j) \<le> t_id (tasks tr ! i)))
         \<and> frame_ok (tasks tr)
              (tasks (fst (task_manager_add_tool_result now tr tool_name tool_input tool_result))) i
              \<lparr>s_id = IdInt (int (length (t_subtasks (tasks tr ! i)) + 1)),
               s_tool = tool_name, s_input = ellipsis 200 tool_input,
               s_result = ellipsis 500 tool_result, s_timestamp = now\<rparr>
         \<and> snd (task_manager_add_tool_result now tr tool_name tool_input tool_result)
           = ustr ''Added to task '' @ py_str_int (t_id (tasks tr ! i)))
      \<and> (fst (task_manager_add_tool_result now tr tool_name tool_input tool_result))
            \<lparr>tasks := tasks tr\<rparr> = tr)"
proof -
  let ?i1 = "case find_last_in_progress (tasks tr) of Some i \<Rightarrow> i | None \<Rightarrow> max_id_index (tasks tr)"
  let ?i2 = "case find_last_in_progress (tasks tr) of Some i \<Rightarrow> i | None \<Rightarrow> length (tasks tr) - 1"
  note t1 = task_tree_target [OF assms]
  note t2 = task_manager_target [OF assms]
  note d1 = task_tree_dispatch [OF assms]
  note d2 = task_manager_dispatch [OF assms]
  have u1: "\<forall>j. task_tree_dispatch_target (tasks tr) j \<longrightarrow> j = ?i1"
    using task_tree_dispatch_target_unique [OF _ d1] by blast
  have u2: "\<forall>j. task_manager_dispatch_target (tasks tr) j \<longrightarrow> j = ?i2"
    using task_manager_dispatch_target_unique [OF _ d2] by blast
  have h2: "sorted (map t_id (tasks tr)) \<and> none_in_progress (tasks tr) \<longrightarrow>
              (\<forall>j<length (tasks tr). t_id (tasks tr ! j) \<le> t_id (tasks tr ! ?i2))"
  proof (intro impI allI)
    fix j
    assume a: "sorted (map t_id (tasks tr)) \<and> none_in_progress (tasks tr)" and j: "j < length (tasks tr)"
    from a d2 have "Suc ?i2 = length (tasks tr)"
      by (auto simp: task_manager_dispatch_target_def last_in_progress_def none_in_progress_def)
    from sorted_last_highest [OF _ this j] a show "t_id (tasks tr ! j) \<le> t_id (tasks tr ! ?i2)"
      by blast
  qed
  have f1: "frame_ok (tasks tr)
        (tasks (fst (task_tree_add_tool_result now tr tool_name tool_input tool_result))) ?i1
        \<lparr>s_id = IdStr (py_str_int (t_id (tasks tr ! ?i1)) @ ustr ''.'' @
                        py_str_nat (length (t_subtasks (tasks tr ! ?i1)) + 1)),
         s_tool = tool_name, s_input = ellipsis 100 tool_input,
         s_result = ellipsis 200 tool_result, s_timestamp = now\<rparr>"
    and r1: "snd (task_tree_add_tool_result now tr tool_name tool_input tool_result)
           = py_str_int (t_id (tasks tr ! ?i1)) @ ustr ''.'' @
             py_str_nat (length (t_subtasks (tasks tr ! ?i1)) + 1)"
    and o1: "(fst (task_tree_add_tool_result now tr tool_name tool_input tool_result))
            \<lparr>tasks := tasks tr\<rparr> = tr"
    if "tool_name \<noteq> ustr ''report_task_update''"
    unfolding frame_ok_def
    using that assms t1 add_subtask_frame [OF t1]
    by (simp_all add: task_tree_add_tool_result_def Let_def)
  have f2: "frame_ok (tasks tr)
        (tasks (fst (task_manager_add_tool_result now tr tool_name tool_input tool_result))) ?i2
        \<lparr>s_id = IdInt (int (length (t_subtasks (tasks tr ! ?i2)) + 1)),
         s_tool = tool_name, s_input = ellipsis 200 tool_input,
         s_result = ellipsis 500 tool_result, s_timestamp = now\<rparr>"
    and r2: "snd (task_manager_add_tool_result now tr tool_name tool_input tool_result)
           = ustr ''Added to task '' @ py_str_int (t_id (tasks tr ! ?i2))"
    and o2: "(fst (task_manager_add_tool_result now tr tool_name tool_input tool_result))
            \<lparr>tasks := tasks tr\<rparr> = tr"
    if "tool_name \<noteq> ustr ''task_manager''"
    unfolding frame_ok_def
    using that assms t2 add_subtask_frame [OF t2]
    by (simp_all add: task_manager_add_tool_result_def Let_def)
  from d1 u1 f1 r1 o1 have a: "tool_name \<noteq> ustr ''report_task_update'' \<longrightarrow>
      (\<exists>i. task_tree_dispatch_target (tasks tr) i
         \<and> (\<forall>j. task_tree_dispatch_target (tasks tr) j \<longrightarrow> j = i)
         \<and> frame_ok (tasks tr)
              (tasks (fst (task_tree_add_tool_result now tr tool_name tool_input tool_result))) i
              \<lparr>s_id = IdStr (py_str_int (t_id (tasks tr ! i)) @ ustr ''.'' @
                        py_str_nat (length (t_subtasks (tasks tr ! i)) + 1)),
               s_tool = tool_name, s_input = ellipsis 100 tool_input,
               s_result = ellipsis 200 tool_result, s_timestamp = now\<rparr>
         \<and> snd (task_tree_add_tool_result now tr tool_name tool_input tool_result)
           = py_str_int (t_id (tasks tr ! i)) @ ustr ''.'' @
             py_str_nat (length (t_subtasks (tasks tr ! i)) + 1))
      \<and> (fst (task_tree_add_tool_result now tr tool_name tool_input tool_result))
            \<lparr>tasks := tasks tr\<rparr> = tr"
    by blast
  from d2 u2 h2 f2 r2 o2 have b: "tool_name \<noteq> ustr ''task_manager'' \<longrightarrow>
      (\<exists>i. task_manager_dispatch_target (tasks tr) i
         \<and> (\<forall>j. task_manager_dispatch_target (tasks tr) j \<longrightarrow> j = i)
         \<and> (sorted (map t_id (tasks tr)) \<and> none_in_progress (tasks tr) \<longrightarrow>
              (\<forall>j<length (tasks tr). t_id (tasks tr ! j) \<le> t_id (tasks tr ! i)))
         \<and> frame_ok (tasks tr)
              (tasks (fst (task_manager_add_tool_result now tr tool_name tool_input tool_result))) i
              \<lparr>s_id = IdInt (int (length (t_subtasks (tasks tr ! i)) + 1)),
               s_tool = tool_name, s_input = ellipsis 200 tool_input,
               s_result = ellipsis 500 tool_result, s_timestamp = now\<rparr>
         \<and> snd (task_manager_add_tool_result now tr tool_name tool_input tool_result)
           = ustr ''Added to task '' @ py_str_int (t_id (tasks tr ! i)))
      \<and> (fst (task_manager_add_tool_result now tr tool_name tool_input tool_result))
            \<lparr>tasks := tasks tr\<rparr> = tr"
    by blast
  from a b show ?thesis by blast
qed

theorem add_tool_result_frame_witness:
  "tasks tr0 \<noteq> [] \<and> ustr ''python'' \<noteq> ustr ''report_task_update''
   \<and> ustr ''python'' \<noteq> ustr ''task_manager''
   \<and> task_tree_dispatch_target (tasks tr0) 0
   \<and> map (\<lambda>t. length (t_subtasks t))
        (tasks (fst (task_tree_add_tool_result (ustr ''t1'') tr0 (ustr ''python'')
           (ustr ''x'') (ustr ''y'')))) = [1, 0]
   \<and> snd (task_tree_add_tool_result (ustr ''t1'') tr0 (ustr ''python'') (ustr ''x'') (ustr ''y''))
     = ustr ''1.1''
   \<and> map (\<lambda>t. length (t_subtasks t))
        (tasks (fst (task_manager_add_tool_result (ustr ''t1'') tr0 (ustr ''python'')
           (ustr ''x'') (ustr ''y'')))) = [1, 0]
   \<and> (fst (task_manager_add_tool_result (ustr ''t1'') tr0 (ustr ''python'') (ustr ''x'')
          (ustr ''y'')))\<lparr>tasks := tasks tr0\<rparr> = tr0"
proof -
  have h: "tasks tr0 \<noteq> []" by (simp add: tr0_def)
  have n1: "ustr ''python'' \<noteq> ustr ''report_task_update''" by (simp add: ustr_def)
  have n2: "ustr ''python'' \<noteq> ustr ''task_manager''" by (simp add: ustr_def)
  have d: "task_tree_dispatch_target (tasks tr0) 0"
    by (simp add: task_tree_dispatch_target_def last_in_progress_def tr0_def new_task_def
        less_Suc_eq ustr_def)
  from add_tool_result_frame [OF h, of "ustr ''python''" "ustr ''t1''" "ustr ''x''" "ustr ''y''"]
    n2
  have o: "(fst (task_manager_add_tool_result (ustr ''t1'') tr0 (ustr ''python'') (ustr ''x'')
          (ustr ''y'')))\<lparr>tasks := tasks tr0\<rparr> = tr0" by blast
  have e1: "map (\<lambda>t. length (t_subtasks t))
        (tasks (fst (task_tree_add_tool_result (ustr ''t1'') tr0 (ustr ''python'')
           (ustr ''x'') (ustr ''y'')))) = [1, 0]"
    "snd (task_tree_add_tool_result (ustr ''t1'') tr0 (ustr ''python'') (ustr ''x'') (ustr ''y''))
     = ustr ''1.1''"
    by (simp_all add: task_tree_add_tool_result_def tr0_def new_task_def add_subtask_def
        py_str_int_def py_str_nat.simps Let_def ustr_def)
  have e2: "map (\<lambda>t. length (t_subtasks t))
        (tasks (fst (task_manager_add_tool_result (ustr ''t1'') tr0 (ustr ''python'')
           (ustr ''x'') (ustr ''y'')))) = [1, 0]"
    by (simp add: task_manager_add_tool_result_def tr0_def new_task_def add_subtask_def
        Let_def ustr_def)
  from h n1 n2 d o e1 e2 show ?thesis by blast
qed

subsection \<open>The extraction loops\<close>

lemma find_task_index_None: "find_task_index ts n = None \<longleftrightarrow> n \<notin> t_id ` set ts"
  by (induction ts) auto

lemma find_task_index_Some:
  "find_task_index ts n = Some i \<Longrightarrow> i < length ts \<and> t_id (ts ! i) = n"
  by (induction ts arbitrary: i) (auto split: if_splits)

lemma map_id_update:
  "i < length ts \<Longrightarrow> t_id x = t_id (ts ! i) \<Longrightarrow> map t_id (ts[i := x]) = map t_id ts"
  by (simp add: map_update list_update_same_conv)

lemma ids_update:
  "i < length ts \<Longrightarrow> t_id x = t_id (ts ! i) \<Longrightarrow> t_id ` set (ts[i := x]) = t_id ` set ts"
  using map_id_update [of i ts x] by (metis set_map)

lemma bound_via_ids:
  assumes "t_id ` set ts' = t_id ` set ts" and "\<forall>t\<in>set ts. t_id t \<le> (w::int)"
  shows "\<forall>t\<in>set ts'. t_id t \<le> w"
proof
  fix t assume "t \<in> set ts'"
  then have "t_id t \<in> t_id ` set ts" using assms(1) by blast
  then obtain t0 where "t0 \<in> set ts" "t_id t = t_id t0" by blast
  with assms(2) show "t_id t \<le> w" by simp
qed

lemma resolve_task_id_eq:
  "resolve_task_id v w =
     (case explicit_task_id v of Some n \<Rightarrow> (n, max w n) | None \<Rightarrow> (w + 1, w + 1))"
  by (cases v) (auto split: option.splits)

lemma tt_loop_ids:
  "t_id ` set (fst (task_tree_match_loop now ms ts c))
   = t_id ` set ts \<union> set (arrow_ids ms)"
proof (induction ms arbitrary: ts c)
  case Nil
  then show ?case by (simp add: map_filter_simps)
next
  case (Cons m ms)
  obtain a d s where m: "m = (a, d, s)" by (cases m)
  show ?case
  proof (cases "py_int a")
    case None
    with m Cons show ?thesis by (simp add: map_filter_simps)
  next
    case (Some n)
    show ?thesis
    proof (cases "find_task_index ts n")
      case None
      with Some m Cons show ?thesis
        by (auto simp: map_filter_simps new_task_def)
    next
      case (Some i)
      note idx = find_task_index_Some [OF Some]
      from idx have "n \<in> t_id ` set ts" by (metis imageI nth_mem)
      with \<open>py_int a = Some n\<close> Some m Cons idx show ?thesis
        by (simp add: map_filter_simps ids_update insert_absorb)
    qed
  qed
qed

lemma tt_loop_len:
  "set (arrow_ids ms) \<subseteq> t_id ` set ts \<Longrightarrow>
   length (fst (task_tree_match_loop now ms ts c)) = length ts"
proof (induction ms arbitrary: ts c)
  case Nil
  then show ?case by simp
next
  case (Cons m ms)
  obtain a d s where m: "m = (a, d, s)" by (cases m)
  show ?case
  proof (cases "py_int a")
    case None
    with m Cons show ?thesis by (simp add: map_filter_simps)
  next
    case (Some n)
    with m Cons.prems have sub: "set (arrow_ids ms) \<subseteq> t_id ` set ts"
      and "n \<in> t_id ` set ts" by (simp_all add: map_filter_simps)
    then obtain i where i: "find_task_index ts n = Some i"
      using find_task_index_None [of ts n] by (cases "find_task_index ts n") auto
    note idx = find_task_index_Some [OF i]
    let ?ts' = "ts[i := (ts ! i)\<lparr>t_status := JStr (py_lower s), t_description := JStr (py_strip d),
                                   t_timestamp := now\<rparr>]"
    have "t_id ` set ?ts' = t_id ` set ts" using idx by (simp add: ids_update)
    with sub have "length (fst (task_tree_match_loop now ms ?ts' (c + 1))) = length ?ts'"
      using Cons.IH [of ?ts' "c + 1"] by simp
    moreover have "length (fst (task_tree_match_loop now ms ts c)) = length ts"
      using Cons.IH [OF sub] .
    ultimately show ?thesis using Some i m by simp
  qed
qed

lemma tt_loop_watermark:
  "current_task_id (fst (task_tree_extract_tasks_from_response now tr s)) = current_task_id tr"
  by (simp add: task_tree_extract_tasks_from_response_def case_prod_beta)

lemma tt_idempotent:
  "length (tasks (fst (task_tree_extract_tasks_from_response now2
      (fst (task_tree_extract_tasks_from_response now1 tr s)) s)))
   = length (tasks (fst (task_tree_extract_tasks_from_response now1 tr s)))"
proof -
  let ?ms = "findall_tasks s"
  let ?ts1 = "sort_key t_id (fst (task_tree_match_loop now1 ?ms (tasks tr) 0))"
  have "set (arrow_ids ?ms) \<subseteq> t_id ` set ?ts1"
    using tt_loop_ids [of now1 ?ms "tasks tr" 0] by auto
  from tt_loop_len [OF this, of now2 0] show ?thesis
    by (simp add: task_tree_extract_tasks_from_response_def case_prod_beta)
qed

lemma tm_loop_skip:
  "arrow_ids ms = [] \<Longrightarrow> task_manager_match_loop now ms ts w c = (ts, w, c)"
proof (induction ms)
  case Nil
  then show ?case by simp
next
  case (Cons m ms)
  obtain a d s where m: "m = (a, d, s)" by (cases m)
  from Cons.prems m have "py_int a = None" "arrow_ids ms = []"
    by (cases "py_int a"; simp add: map_filter_simps)+
  with Cons.IH m show ?case by simp
qed

lemma tm_loop_step:
  "task_manager_match_loop now ((a, d, s) # ms) ts w c =
     (case py_int a of
        None \<Rightarrow> task_manager_match_loop now ms ts w c
      | Some n \<Rightarrow>
          (case find_task_index ts n of
             Some i \<Rightarrow>
               task_manager_match_loop now ms
                 (ts[i := (ts ! i)\<lparr>t_status := JStr (py_lower s), t_description := JStr (py_strip d),
                                   t_timestamp := now\<rparr>]) w (c + 1)
           | None \<Rightarrow>
               task_manager_match_loop now ms
                 (ts @ [new_task n (py_strip d) (py_lower s) now]) (max w n) (c + 1)))"
  by simp

lemma tm_loop_ids:
  "t_id ` set (fst (task_manager_match_loop now ms ts w c)) = t_id ` set ts \<union> set (arrow_ids ms)"
proof (induction ms arbitrary: ts w c)
  case Nil
  then show ?case by (simp add: map_filter_simps)
next
  case (Cons m ms)
  obtain a d s where m: "m = (a, d, s)" by (cases m)
  show ?case
  proof (cases "py_int a")
    case None
    with m Cons show ?thesis by (simp add: map_filter_simps)
  next
    case (Some n)
    show ?thesis
    proof (cases "find_task_index ts n")
      case None
      with Some m Cons show ?thesis
        by (auto simp: map_filter_simps new_task_def)
    next
      case (Some i)
      note idx = find_task_index_Some [OF Some]
      from idx have "n \<in> t_id ` set ts" by (metis imageI nth_mem)
      with \<open>py_int a = Some n\<close> Some m Cons idx show ?thesis
        by (simp add: map_filter_simps ids_update insert_absorb)
    qed
  qed
qed

lemma tm_loop_count:
  "snd (snd (task_manager_match_loop now ms ts w c)) = c + length (arrow_ids ms)"
proof (induction ms arbitrary: ts w c)
  case Nil
  then show ?case by (simp add: map_filter_simps)
next
  case (Cons m ms)
  obtain a d s where m: "m = (a, d, s)" by (cases m)
  show ?case unfolding m tm_loop_step
    by (simp add: Cons map_filter_simps split: option.splits)
qed

lemma tm_loop_mono:
  "w \<le> fst (snd (task_manager_match_loop now ms ts w c))"
proof (induction ms arbitrary: ts w c)
  case Nil
  then show ?case by simp
next
  case (Cons m ms)
  obtain a d s where m: "m = (a, d, s)" by (cases m)
  show ?case
  proof (cases "py_int a")
    case None
    with m Cons [of w ts c] show ?thesis by simp
  next
    case (Some n)
    show ?thesis
    proof (cases "find_task_index ts n")
      case None
      have "max w n \<le> fst (snd (task_manager_match_loop now ms
              (ts @ [new_task n (py_strip d) (py_lower s) now]) (max w n) (c + 1)))"
        by (rule Cons)
      then have "w \<le> fst (snd (task_manager_match_loop now ms
              (ts @ [new_task n (py_strip d) (py_lower s) now]) (max w n) (c + 1)))"
        by simp
      with None Some m show ?thesis by simp
    next
      case (Some i)
      have "w \<le> fst (snd (task_manager_match_loop now ms
              (ts[i := (ts ! i)\<lparr>t_status := JStr (py_lower s), t_description := JStr (py_strip d),
                                t_timestamp := now\<rparr>]) w (c + 1)))"
        by (rule Cons)
      with Some \<open>py_int a = Some n\<close> m show ?thesis by simp
    qed
  qed
qed

lemma tm_loop_bound:
  "\<forall>t\<in>set ts. t_id t \<le> w \<Longrightarrow>
   \<forall>t\<in>set (fst (task_manager_match_loop now ms ts w c)).
      t_id t \<le> fst (snd (task_manager_match_loop now ms ts w c))"
proof (induction ms arbitrary: ts w c)
  case Nil
  then show ?case by simp
next
  case (Cons m ms)
  obtain a d s where m: "m = (a, d, s)" by (cases m)
  show ?case
  proof (cases "py_int a")
    case None
    have "\<forall>t\<in>set (fst (task_manager_match_loop now ms ts w c)).
            t_id t \<le> fst (snd (task_manager_match_loop now ms ts w c))"
      using Cons.prems by (rule Cons.IH)
    with None m show ?thesis by simp
  next
    case (Some n)
    note a = Some
    show ?thesis
    proof (cases "find_task_index ts n")
      case None
      let ?ts' = "ts @ [new_task n (py_strip d) (py_lower s) now]"
      have "\<forall>t\<in>set ?ts'. t_id t \<le> max w n"
        using Cons.prems by (auto simp: new_task_def)
      then have "\<forall>t\<in>set (fst (task_manager_match_loop now ms ?ts' (max w n) (c + 1))).
            t_id t \<le> fst (snd (task_manager_match_loop now ms ?ts' (max w n) (c + 1)))"
        by (rule Cons.IH)
      with None a m show ?thesis by simp
    next
      case (Some i)
      note idx = find_task_index_Some [OF Some]
      let ?ts' = "ts[i := (ts ! i)\<lparr>t_status := JStr (py_lower s), t_description := JStr (py_strip d),
                                     t_timestamp := now\<rparr>]"
      have "t_id ` set ?ts' = t_id ` set ts" using idx by (simp add: ids_update)
      then have "\<forall>t\<in>set ?ts'. t_id t \<le> w" using Cons.prems by (rule bound_via_ids)
      then have "\<forall>t\<in>set (fst (task_manager_match_loop now ms ?ts' w (c + 1))).
            t_id t \<le> fst (snd (task_manager_match_loop now ms ?ts' w (c + 1)))"
        by (rule Cons.IH)
      with Some a m show ?thesis by simp
    qed
  qed
qed

lemma tm_loop_len:
  "set (arrow_ids ms) \<subseteq> t_id ` set ts \<Longrightarrow>
   length (fst (task_manager_match_loop now ms ts w c)) = length ts"
proof (induction ms arbitrary: ts c)
  case Nil
  then show ?case by simp
next
  case (Cons m ms)
  obtain a d s where m: "m = (a, d, s)" by (cases m)
  show ?case
  proof (cases "py_int a")
    case None
    with m Cons show ?thesis by (simp add: map_filter_simps)
  next
    case (Some n)
    with m Cons.prems have sub: "set (arrow_ids ms) \<subseteq> t_id ` set ts"
      and "n \<in> t_id ` set ts" by (simp_all add: map_filter_simps)
    then obtain i where i: "find_task_index ts n = Some i"
      using find_task_index_None [of ts n] by (cases "find_task_index ts n") auto
    note idx = find_task_index_Some [OF i]
    let ?ts' = "ts[i := (ts ! i)\<lparr>t_status := JStr (py_lower s), t_description := JStr (py_strip d),
                                   t_timestamp := now\<rparr>]"
    have "t_id ` set ?ts' = t_id ` set ts" using idx by (simp add: ids_update)
    with sub have "length (fst (task_manager_match_loop now ms ?ts' w (c + 1))) = length ?ts'"
      using Cons.IH [of ?ts' "c + 1"] by simp
    then show ?thesis using Some i m by simp
  qed
qed

lemma resolve_facts:
  "resolve_task_id v w = (n, w') \<Longrightarrow> w \<le> w' \<and> n \<le> w'"
  "resolve_task_id v w = (n, w') \<Longrightarrow> explicit_task_id v = Some k \<Longrightarrow> k = n"
  by (auto simp: resolve_task_id_eq split: option.splits)

lemma named_ids_Cons:
  "resolve_task_id (u_task_id u) w = (n, w') \<Longrightarrow>
   set (named_ids (u # us)) \<subseteq> insert n (set (named_ids us))"
  by (cases "explicit_task_id (u_task_id u)")
    (auto simp: named_ids_def map_filter_simps dest: resolve_facts(2))

lemma upd_loop_new:
  assumes "resolve_task_id (u_task_id u) w = (n, w')" and "find_task_index ts n = None"
  shows "\<exists>x. t_id x = n \<and>
       apply_updates now (u # us) ts w c
       = apply_updates now us (ts @ [x]) w' (c + 1)"
proof -
  let ?x = "\<lparr>t_id = n,
              t_description =
                (case u_description u of None \<Rightarrow> JStr (ustr ''Unknown task'') | Some d \<Rightarrow> d),
              t_status = (case u_status u of None \<Rightarrow> JStr (ustr ''pending'') | Some s \<Rightarrow> s),
              t_timestamp = now, t_subtasks = [], t_parent_id = u_parent_id u,
              t_details = u_details u\<rparr>"
  have "t_id ?x = n" by simp
  moreover have "apply_updates now (u # us) ts w c
       = apply_updates now us (ts @ [?x]) w' (c + 1)"
    using assms by (simp add: task_manager_apply_update_def Let_def)
  ultimately show ?thesis by blast
qed

lemma upd_loop_old:
  assumes "resolve_task_id (u_task_id u) w = (n, w')" and "find_task_index ts n = Some i"
  shows "\<exists>x. t_id x = t_id (ts ! i) \<and>
       apply_updates now (u # us) ts w c
       = apply_updates now us (ts[i := x]) w' (c + 1)"
proof -
  let ?x = "(ts ! i)\<lparr>t_status := (case u_status u of None \<Rightarrow> JStr (ustr ''pending'') | Some s \<Rightarrow> s),
              t_description :=
                (case u_description u of None \<Rightarrow> JStr (ustr ''Unknown task'') | Some d \<Rightarrow> d),
              t_timestamp := now, t_details := u_details u\<rparr>"
  have "t_id ?x = t_id (ts ! i)" by simp
  moreover have "apply_updates now (u # us) ts w c
       = apply_updates now us (ts[i := ?x]) w' (c + 1)"
    using assms by (simp add: task_manager_apply_update_def Let_def)
  ultimately show ?thesis by blast
qed

lemma upd_loop_ids:
  "t_id ` set ts \<union> set (named_ids us)
   \<subseteq> t_id ` set (fst (apply_updates now us ts w c))"
proof (induction us arbitrary: ts w c)
  case Nil
  then show ?case by (simp add: named_ids_def map_filter_simps)
next
  case (Cons u us)
  obtain n w' where r: "resolve_task_id (u_task_id u) w = (n, w')"
    by (cases "resolve_task_id (u_task_id u) w")
  note nm = named_ids_Cons [OF r, of us]
  show ?case
  proof (cases "find_task_index ts n")
    case None
    from upd_loop_new [OF r None, of now us c] obtain x where x: "t_id x = n"
      and step: "apply_updates now (u # us) ts w c
                 = apply_updates now us (ts @ [x]) w' (c + 1)" by blast
    have "t_id ` set (ts @ [x]) \<union> set (named_ids us)
          \<subseteq> t_id ` set (fst (apply_updates now us (ts @ [x]) w' (c + 1)))"
      by (rule Cons)
    moreover have "t_id ` set ts \<union> set (named_ids (u # us))
          \<subseteq> t_id ` set (ts @ [x]) \<union> set (named_ids us)"
      using nm x by auto
    ultimately show ?thesis unfolding step by (rule order_trans [rotated])
  next
    case (Some i)
    note idx = find_task_index_Some [OF Some]
    from upd_loop_old [OF r Some, of now us c] obtain x where x: "t_id x = t_id (ts ! i)"
      and step: "apply_updates now (u # us) ts w c
                 = apply_updates now us (ts[i := x]) w' (c + 1)" by blast
    have ids: "t_id ` set (ts[i := x]) = t_id ` set ts" using idx x by (simp add: ids_update)
    from idx have n: "n \<in> t_id ` set ts" by (metis imageI nth_mem)
    have "t_id ` set (ts[i := x]) \<union> set (named_ids us)
          \<subseteq> t_id ` set (fst (apply_updates now us (ts[i := x]) w' (c + 1)))"
      by (rule Cons)
    moreover have "t_id ` set ts \<union> set (named_ids (u # us))
          \<subseteq> t_id ` set (ts[i := x]) \<union> set (named_ids us)"
      unfolding ids using nm n by auto
    ultimately show ?thesis unfolding step by (rule order_trans [rotated])
  qed
qed

lemma upd_loop_mono:
  "w \<le> fst (snd (apply_updates now us ts w c))"
proof (induction us arbitrary: ts w c)
  case Nil
  then show ?case by simp
next
  case (Cons u us)
  obtain n w' where r: "resolve_task_id (u_task_id u) w = (n, w')"
    by (cases "resolve_task_id (u_task_id u) w")
  from resolve_facts(1) [OF r] have w: "w \<le> w'" by simp
  show ?case
  proof (cases "find_task_index ts n")
    case None
    from upd_loop_new [OF r None, of now us c] obtain x where
      step: "apply_updates now (u # us) ts w c
             = apply_updates now us (ts @ [x]) w' (c + 1)" by blast
    have "w' \<le> fst (snd (apply_updates now us (ts @ [x]) w' (c + 1)))" by (rule Cons)
    with w show ?thesis unfolding step by simp
  next
    case (Some i)
    from upd_loop_old [OF r Some, of now us c] obtain x where
      step: "apply_updates now (u # us) ts w c
             = apply_updates now us (ts[i := x]) w' (c + 1)" by blast
    have "w' \<le> fst (snd (apply_updates now us (ts[i := x]) w' (c + 1)))"
      by (rule Cons)
    with w show ?thesis unfolding step by simp
  qed
qed

lemma upd_loop_bound:
  "\<forall>t\<in>set ts. t_id t \<le> w \<Longrightarrow>
   \<forall>t\<in>set (fst (apply_updates now us ts w c)).
      t_id t \<le> fst (snd (apply_updates now us ts w c))"
proof (induction us arbitrary: ts w c)
  case Nil
  then show ?case by simp
next
  case (Cons u us)
  obtain n w' where r: "resolve_task_id (u_task_id u) w = (n, w')"
    by (cases "resolve_task_id (u_task_id u) w")
  from resolve_facts(1) [OF r] have w: "w \<le> w'" "n \<le> w'" by simp_all
  from Cons.prems w(1) have b: "\<forall>t\<in>set ts. t_id t \<le> w'" by fastforce
  show ?case
  proof (cases "find_task_index ts n")
    case None
    from upd_loop_new [OF r None, of now us c] obtain x where x: "t_id x = n"
      and step: "apply_updates now (u # us) ts w c
                 = apply_updates now us (ts @ [x]) w' (c + 1)" by blast
    have "\<forall>t\<in>set (ts @ [x]). t_id t \<le> w'" using b x w(2) by simp
    from Cons.IH [OF this] show ?thesis unfolding step .
  next
    case (Some i)
    note idx = find_task_index_Some [OF Some]
    from upd_loop_old [OF r Some, of now us c] obtain x where x: "t_id x = t_id (ts ! i)"
      and step: "apply_updates now (u # us) ts w c
                 = apply_updates now us (ts[i := x]) w' (c + 1)" by blast
    have "t_id ` set (ts[i := x]) = t_id ` set ts" using idx x by (simp add: ids_update)
    then have "\<forall>t\<in>set (ts[i := x]). t_id t \<le> w'" using b by (rule bound_via_ids)
    from Cons.IH [OF this] show ?thesis unfolding step .
  qed
qed

lemma upd_loop_len:
  "\<forall>u\<in>set us. explicit_task_id (u_task_id u) \<noteq> None \<Longrightarrow>
   set (named_ids us) \<subseteq> t_id ` set ts \<Longrightarrow>
   length (fst (apply_updates now us ts w c)) = length ts"
proof (induction us arbitrary: ts w c)
  case Nil
  then show ?case by simp
next
  case (Cons u us)
  from Cons.prems(1) obtain n where n: "explicit_task_id (u_task_id u) = Some n" by auto
  then have r: "resolve_task_id (u_task_id u) w = (n, max w n)"
    by (simp add: resolve_task_id_eq)
  from n Cons.prems(2) have sub: "set (named_ids us) \<subseteq> t_id ` set ts" and "n \<in> t_id ` set ts"
    by (simp_all add: named_ids_def map_filter_simps)
  then obtain i where i: "find_task_index ts n = Some i"
    using find_task_index_None [of ts n] by (cases "find_task_index ts n") auto
  note idx = find_task_index_Some [OF i]
  from upd_loop_old [OF r i, of now us c] obtain x where x: "t_id x = t_id (ts ! i)"
    and step: "apply_updates now (u # us) ts w c
               = apply_updates now us (ts[i := x]) (max w n) (c + 1)" by blast
  have "t_id ` set (ts[i := x]) = t_id ` set ts" using idx x by (simp add: ids_update)
  with sub Cons.prems(1)
  have "length (fst (apply_updates now us (ts[i := x]) (max w n) (c + 1)))
        = length (ts[i := x])"
    by (intro Cons.IH) simp_all
  then show ?case unfolding step by simp
qed

lemma upd_loop_append:
  "apply_updates now (us @ vs) ts w c =
     (case apply_updates now us ts w c of
        (ts', w', c') \<Rightarrow> apply_updates now vs ts' w' c')"
  by (induction us arbitrary: ts w c) (simp_all split: prod.splits)

lemma update_loop_eq:
  "task_manager_update_loop now entries ts w c =
     (apply_updates now (fst (read_entries entries)) ts w c, snd (read_entries entries))"
proof (induction entries arbitrary: ts w c)
  case Nil
  then show ?case by simp
next
  case (Cons e entries)
  then show ?case by (cases e) (simp_all split: prod.splits)
qed

lemma json_loop_eq:
  "task_manager_json_loop jl now js ts w c = apply_updates now (read_reports jl js) ts w c"
proof (induction js arbitrary: ts w c)
  case Nil
  then show ?case by simp
next
  case (Cons j js)
  show ?case
  proof (cases "jl (clean_json_input j)")
    case JSONDecodeError
    with Cons show ?thesis by simp
  next
    case NotAReport
    then show ?thesis by simp
  next
    case (Report entries)
    with Cons show ?thesis
      by (simp add: update_loop_eq upd_loop_append split: prod.splits)
  qed
qed

lemmas tree_eval = directive_in_progress_def directive_completed_def quoted_def report_body_def
  report_without_id_def decode_example_def loaded_tree_def TaskTree_init_def new_task_def
  task_tree_extract_tasks_from_response_def task_manager_extract_tasks_from_response_def
  findall_tasks_def findall_json_def task_pattern_def json_pattern_def clean_json_input_def
  endswith_def py_int_def int_space_def py_strip_def py_isspace_def parsed_arrow_ids_def
  map_filter_simps task_manager_apply_update_def

subsection \<open>Task extraction: repetition and the watermark\<close>

lemma tm_extract_arrow:
  assumes "parsed_arrow_ids s \<noteq> []"
  shows "task_manager_extract_tasks_from_response jl now tr s =
     (tr\<lparr>tasks := sort_key t_id (fst (task_manager_match_loop now (findall_tasks s) (tasks tr)
                                      (current_task_id tr) 0)),
         current_task_id := fst (snd (task_manager_match_loop now (findall_tasks s) (tasks tr)
                                      (current_task_id tr) 0))\<rparr>,
      snd (snd (task_manager_match_loop now (findall_tasks s) (tasks tr) (current_task_id tr) 0)))"
proof -
  have "snd (snd (task_manager_match_loop now (findall_tasks s) (tasks tr) (current_task_id tr) 0))
        \<noteq> 0"
    using assms by (simp add: tm_loop_count parsed_arrow_ids_def)
  then show ?thesis
    by (simp add: task_manager_extract_tasks_from_response_def case_prod_beta)
qed

lemma tm_extract_json:
  assumes "parsed_arrow_ids s = []"
  shows "task_manager_extract_tasks_from_response jl now tr s =
     (tr\<lparr>tasks := sort_key t_id (fst (apply_updates now (reports jl s) (tasks tr)
                                      (current_task_id tr) 0)),
         current_task_id := fst (snd (apply_updates now (reports jl s) (tasks tr)
                                      (current_task_id tr) 0))\<rparr>,
      snd (snd (apply_updates now (reports jl s) (tasks tr) (current_task_id tr) 0)))"
proof -
  have "task_manager_match_loop now (findall_tasks s) (tasks tr) (current_task_id tr) 0
        = (tasks tr, current_task_id tr, 0)"
    using assms by (simp add: tm_loop_skip parsed_arrow_ids_def)
  then show ?thesis
    by (simp add: task_manager_extract_tasks_from_response_def case_prod_beta json_loop_eq
        reports_def)
qed

lemma tm_idempotent:
  assumes "parsed_arrow_ids s \<noteq> [] \<or> (\<forall>u\<in>set (reports jl s). explicit_task_id (u_task_id u) \<noteq> None)"
  shows "length (tasks (fst (task_manager_extract_tasks_from_response jl now2
      (fst (task_manager_extract_tasks_from_response jl now1 tr s)) s)))
   = length (tasks (fst (task_manager_extract_tasks_from_response jl now1 tr s)))"
proof (cases "parsed_arrow_ids s = []")
  case False
  let ?ms = "findall_tasks s"
  let ?ts1 = "sort_key t_id (fst (task_manager_match_loop now1 ?ms (tasks tr) (current_task_id tr) 0))"
  have "set (arrow_ids ?ms) \<subseteq> t_id ` set ?ts1"
    using tm_loop_ids [of now1 ?ms "tasks tr" "current_task_id tr" 0] by auto
  from tm_loop_len [OF this] show ?thesis
    by (simp add: tm_extract_arrow [OF False])
next
  case True
  with assms have ex: "\<forall>u\<in>set (reports jl s). explicit_task_id (u_task_id u) \<noteq> None" by simp
  let ?us = "reports jl s"
  let ?ts1 = "sort_key t_id (fst (apply_updates now1 ?us (tasks tr) (current_task_id tr) 0))"
  have "set (named_ids ?us) \<subseteq> t_id ` set ?ts1"
    using upd_loop_ids [of "tasks tr" ?us now1 "current_task_id tr" 0] by auto
  from upd_loop_len [OF ex this] show ?thesis
    by (simp add: tm_extract_json [OF True])
qed

lemma scenario_task_tree:
  "map (\<lambda>t. (t_id t, t_status t))
     (tasks (fst (task_tree_extract_tasks_from_response now2
        (fst (task_tree_extract_tasks_from_response now1 (TaskTree_init title path)
               directive_in_progress)) directive_completed)))
   = [(1, JStr (ustr ''completed''))]"
  by (simp add: tree_eval pattern_defs eval_defs)

lemma scenario_task_manager:
  "map (\<lambda>t. (t_id t, t_status t))
     (tasks (fst (task_manager_extract_tasks_from_response jl now2
        (fst (task_manager_extract_tasks_from_response jl now1 (TaskTree_init title path)
               directive_in_progress)) directive_completed)))
   = [(1, JStr (ustr ''completed''))]"
  by (simp add: tree_eval pattern_defs eval_defs)

lemma last_status_for_Cons:
  "last_status_for n ((a, d, s) # ms) =
     (case last_status_for n ms of
        Some st \<Rightarrow> Some st
      | None \<Rightarrow> if py_int a = Some n then Some (py_lower s) else None)"
  by (auto simp: last_status_for_def split: list.splits)

lemma last_status_for_Nil: "last_status_for n [] = None"
  by (simp add: last_status_for_def)

lemma last_status_for_None:
  "last_status_for n ms = None \<longleftrightarrow> n \<notin> set (arrow_ids ms)"
proof (induction ms)
  case Nil
  then show ?case by (simp add: last_status_for_Nil map_filter_simps)
next
  case (Cons m ms)
  obtain a d s where m: "m = (a, d, s)" by (cases m)
  from Cons show ?case unfolding m
    by (cases "py_int a") (auto simp: last_status_for_Cons map_filter_simps split: option.splits)
qed

lemma task_of_id_append:
  "task_of_id n (ts @ [x]) = task_of_id n ts @ (if t_id x = n then [x] else [])"
  by (simp add: task_of_id_def)

lemma task_of_id_absent: "n \<notin> t_id ` set ts \<Longrightarrow> task_of_id n ts = []"
  by (auto simp: task_of_id_def filter_empty_conv)

lemma task_of_id_update_other:
  "i < length ts \<Longrightarrow> t_id (ts ! i) \<noteq> n \<Longrightarrow> t_id x \<noteq> n \<Longrightarrow>
   task_of_id n (ts[i := x]) = task_of_id n ts"
proof (induction ts arbitrary: i)
  case Nil
  then show ?case by simp
next
  case (Cons t ts)
  then show ?case by (cases i) (auto simp: task_of_id_def)
qed

lemma task_of_id_nth:
  "distinct (map t_id ts) \<Longrightarrow> i < length ts \<Longrightarrow> t_id (ts ! i) = n \<Longrightarrow>
   task_of_id n ts = [ts ! i]"
proof (induction ts arbitrary: i)
  case Nil
  then show ?case by simp
next
  case (Cons t ts)
  show ?case
  proof (cases i)
    case 0
    with Cons.prems have "n \<notin> t_id ` set ts" by auto
    from task_of_id_absent [OF this] 0 Cons.prems show ?thesis
      by (simp add: task_of_id_def)
  next
    case (Suc k)
    with Cons.prems have "t_id t \<noteq> n" by (auto simp: image_iff)
    with Suc Cons show ?thesis by (simp add: task_of_id_def)
  qed
qed

lemma task_of_id_update:
  assumes "distinct (map t_id ts)" and "i < length ts" and "t_id (ts ! i) = n" and "t_id x = n"
  shows "task_of_id n (ts[i := x]) = [x]"
proof -
  have "map t_id (ts[i := x]) = map t_id ts"
    using assms(2,3,4) by (simp add: map_update list_update_same_conv)
  with assms(1) have "distinct (map t_id (ts[i := x]))" by simp
  from task_of_id_nth [OF this, of i n] assms(2,4) show ?thesis by simp
qed

lemma distinct_ids_update:
  "distinct (map t_id ts) \<Longrightarrow> i < length ts \<Longrightarrow> t_id x = t_id (ts ! i) \<Longrightarrow>
   distinct (map t_id (ts[i := x]))"
  by (simp add: map_id_update)

lemma distinct_ids_append:
  "distinct (map t_id ts) \<Longrightarrow> find_task_index ts n = None \<Longrightarrow> t_id x = n \<Longrightarrow>
   distinct (map t_id (ts @ [x]))"
  using find_task_index_None [of ts n] by auto

lemma distinct_ids_sort:
  "distinct (map t_id (sort_key t_id ts)) \<longleftrightarrow> distinct (map t_id ts)"
  by (simp add: distinct_map)

lemma task_of_id_sort: "task_of_id n (sort_key t_id ts) = sort_key t_id (task_of_id n ts)"
  by (simp add: task_of_id_def filter_sort)

lemma tt_loop_distinct:
  "distinct (map t_id ts) \<Longrightarrow> distinct (map t_id (fst (task_tree_match_loop now ms ts c)))"
proof (induction ms arbitrary: ts c)
  case Nil
  then show ?case by simp
next
  case (Cons m ms)
  obtain a d s where m: "m = (a, d, s)" by (cases m)
  show ?case
  proof (cases "py_int a")
    case None
    with m Cons show ?thesis by simp
  next
    case (Some n)
    note a = Some
    show ?thesis
    proof (cases "find_task_index ts n")
      case None
      have "distinct (map t_id (ts @ [new_task n (py_strip d) (py_lower s) now]))"
        by (rule distinct_ids_append [OF Cons.prems None]) (simp add: new_task_def)
      from Cons.IH [OF this] None a m show ?thesis by simp
    next
      case (Some i)
      note idx = find_task_index_Some [OF Some]
      have "distinct (map t_id (ts[i := (ts ! i)\<lparr>t_status := JStr (py_lower s),
              t_description := JStr (py_strip d), t_timestamp := now\<rparr>]))"
        by (rule distinct_ids_update [OF Cons.prems]) (simp_all add: idx)
      from Cons.IH [OF this] Cons.IH [OF Cons.prems] Some a m show ?thesis by simp
    qed
  qed
qed

lemma tm_loop_distinct:
  "distinct (map t_id ts) \<Longrightarrow>
   distinct (map t_id (fst (task_manager_match_loop now ms ts w c)))"
proof (induction ms arbitrary: ts w c)
  case Nil
  then show ?case by simp
next
  case (Cons m ms)
  obtain a d s where m: "m = (a, d, s)" by (cases m)
  show ?case
  proof (cases "py_int a")
    case None
    with m Cons show ?thesis by simp
  next
    case (Some n)
    note a = Some
    show ?thesis
    proof (cases "find_task_index ts n")
      case None
      have "distinct (map t_id (ts @ [new_task n (py_strip d) (py_lower s) now]))"
        by (rule distinct_ids_append [OF Cons.prems None]) (simp add: new_task_def)
      from Cons.IH [OF this] None a m show ?thesis by simp
    next
      case (Some i)
      note idx = find_task_index_Some [OF Some]
      have "distinct (map t_id (ts[i := (ts ! i)\<lparr>t_status := JStr (py_lower s),
              t_description := JStr (py_strip d), t_timestamp := now\<rparr>]))"
        by (rule distinct_ids_update [OF Cons.prems]) (simp_all add: idx)
      from Cons.IH [OF this] Some a m show ?thesis by simp
    qed
  qed
qed

lemma upd_loop_distinct:
  "distinct (map t_id ts) \<Longrightarrow> distinct (map t_id (fst (apply_updates now us ts w c)))"
proof (induction us arbitrary: ts w c)
  case Nil
  then show ?case by simp
next
  case (Cons u us)
  obtain n w' where r: "resolve_task_id (u_task_id u) w = (n, w')"
    by (cases "resolve_task_id (u_task_id u) w")
  show ?case
  proof (cases "find_task_index ts n")
    case None
    from upd_loop_new [OF r None, of now us c] obtain x where x: "t_id x = n"
      and step: "apply_updates now (u # us) ts w c = apply_updates now us (ts @ [x]) w' (c + 1)"
      by blast
    from Cons.IH [OF distinct_ids_append [OF Cons.prems None x]] show ?thesis
      unfolding step .
  next
    case (Some i)
    note idx = find_task_index_Some [OF Some]
    from upd_loop_old [OF r Some, of now us c] obtain x where x: "t_id x = t_id (ts ! i)"
      and step: "apply_updates now (u # us) ts w c = apply_updates now us (ts[i := x]) w' (c + 1)"
      by blast
    from idx have "i < length ts" by simp
    from Cons.IH [OF distinct_ids_update [OF Cons.prems this x]] show ?thesis
      unfolding step .
  qed
qed

lemma tt_loop_other:
  "n \<notin> set (arrow_ids ms) \<Longrightarrow>
   task_of_id n (fst (task_tree_match_loop now ms ts c)) = task_of_id n ts"
proof (induction ms arbitrary: ts c)
  case Nil
  then show ?case by simp
next
  case (Cons m ms)
  obtain a d s where m: "m = (a, d, s)" by (cases m)
  show ?case
  proof (cases "py_int a")
    case None
    with m Cons show ?thesis by (simp add: map_filter_simps)
  next
    case (Some k)
    note a = Some
    with m Cons.prems have k: "k \<noteq> n" and rest: "n \<notin> set (arrow_ids ms)"
      by (auto simp: map_filter_simps)
    show ?thesis
    proof (cases "find_task_index ts k")
      case None
      have "task_of_id n (ts @ [new_task k (py_strip d) (py_lower s) now]) = task_of_id n ts"
        using k by (simp add: task_of_id_append new_task_def)
      with Cons.IH [OF rest] None a m show ?thesis by simp
    next
      case (Some i)
      note idx = find_task_index_Some [OF Some]
      have "task_of_id n (ts[i := (ts ! i)\<lparr>t_status := JStr (py_lower s),
              t_description := JStr (py_strip d), t_timestamp := now\<rparr>]) = task_of_id n ts"
        using idx k by (intro task_of_id_update_other) simp_all
      with Cons.IH [OF rest] Some a m show ?thesis by simp
    qed
  qed
qed

lemma tm_loop_other:
  "n \<notin> set (arrow_ids ms) \<Longrightarrow>
   task_of_id n (fst (task_manager_match_loop now ms ts w c)) = task_of_id n ts"
proof (induction ms arbitrary: ts w c)
  case Nil
  then show ?case by simp
next
  case (Cons m ms)
  obtain a d s where m: "m = (a, d, s)" by (cases m)
  show ?case
  proof (cases "py_int a")
    case None
    with m Cons show ?thesis by (simp add: map_filter_simps)
  next
    case (Some k)
    note a = Some
    with m Cons.prems have k: "k \<noteq> n" and rest: "n \<notin> set (arrow_ids ms)"
      by (auto simp: map_filter_simps)
    show ?thesis
    proof (cases "find_task_index ts k")
      case None
      have "task_of_id n (ts @ [new_task k (py_strip d) (py_lower s) now]) = task_of_id n ts"
        using k by (simp add: task_of_id_append new_task_def)
      with Cons.IH [OF rest] None a m show ?thesis by simp
    next
      case (Some i)
      note idx = find_task_index_Some [OF Some]
      have "task_of_id n (ts[i := (ts ! i)\<lparr>t_status := JStr (py_lower s),
              t_description := JStr (py_strip d), t_timestamp := now\<rparr>]) = task_of_id n ts"
        using idx k by (intro task_of_id_update_other) simp_all
      with Cons.IH [OF rest] Some a m show ?thesis by simp
    qed
  qed
qed

text \<open>One directive for task \<open>n\<close>: afterwards the tree has one task \<open>n\<close>, with its status.\<close>

lemma tt_step_sets:
  assumes "distinct (map t_id ts)" and "py_int a = Some n"
  shows "\<exists>ts' c'. task_tree_match_loop now ((a, d, s) # ms) ts c
                  = task_tree_match_loop now ms ts' c'
           \<and> distinct (map t_id ts')
           \<and> (\<exists>t. task_of_id n ts' = [t] \<and> t_status t = JStr (py_lower s)
                   \<and> t_description t = JStr (py_strip d))"
proof (cases "find_task_index ts n")
  case None
  let ?x = "new_task n (py_strip d) (py_lower s) now"
  have x: "t_id ?x = n" by (simp add: new_task_def)
  have "n \<notin> t_id ` set ts" using None by (simp add: find_task_index_None)
  then have "task_of_id n (ts @ [?x]) = [?x]"
    by (simp add: task_of_id_append task_of_id_absent x)
  moreover have "t_status ?x = JStr (py_lower s)" "t_description ?x = JStr (py_strip d)"
    by (simp_all add: new_task_def)
  moreover have "distinct (map t_id (ts @ [?x]))"
    by (rule distinct_ids_append [OF assms(1) None x])
  moreover have "task_tree_match_loop now ((a, d, s) # ms) ts c
                 = task_tree_match_loop now ms (ts @ [?x]) (c + 1)"
    using None assms(2) by simp
  ultimately show ?thesis by blast
next
  case (Some i)
  note idx = find_task_index_Some [OF Some]
  let ?x = "(ts ! i)\<lparr>t_status := JStr (py_lower s), t_description := JStr (py_strip d),
                     t_timestamp := now\<rparr>"
  show ?thesis
  proof (cases "t_status (ts ! i) \<noteq> JStr (py_lower s) \<or> t_description (ts ! i) \<noteq> JStr (py_strip d)")
    case True
    have "task_of_id n (ts[i := ?x]) = [?x]"
      using idx by (intro task_of_id_update [OF assms(1)]) simp_all
    moreover have "t_status ?x = JStr (py_lower s)" "t_description ?x = JStr (py_strip d)"
      by simp_all
    moreover have "distinct (map t_id (ts[i := ?x]))"
      using idx by (intro distinct_ids_update [OF assms(1)]) simp_all
    moreover have "task_tree_match_loop now ((a, d, s) # ms) ts c
                   = task_tree_match_loop now ms (ts[i := ?x]) (c + 1)"
      using Some assms(2) True by simp
    ultimately show ?thesis by blast
  next
    case False
    have "task_of_id n ts = [ts ! i]"
      using idx by (intro task_of_id_nth [OF assms(1)]) simp_all
    moreover have "t_status (ts ! i) = JStr (py_lower s)"
      "t_description (ts ! i) = JStr (py_strip d)"
      using False by simp_all
    moreover have "task_tree_match_loop now ((a, d, s) # ms) ts c
                   = task_tree_match_loop now ms ts c"
      using Some assms(2) False by simp
    ultimately show ?thesis using assms(1) by blast
  qed
qed

lemma tm_step_sets:
  assumes "distinct (map t_id ts)" and "py_int a = Some n"
  shows "\<exists>ts' w' c'. task_manager_match_loop now ((a, d, s) # ms) ts w c
                  = task_manager_match_loop now ms ts' w' c'
           \<and> distinct (map t_id ts')
           \<and> (\<exists>t. task_of_id n ts' = [t] \<and> t_status t = JStr (py_lower s)
                   \<and> t_description t = JStr (py_strip d))"
proof (cases "find_task_index ts n")
  case None
  let ?x = "new_task n (py_strip d) (py_lower s) now"
  have x: "t_id ?x = n" by (simp add: new_task_def)
  have "n \<notin> t_id ` set ts" using None by (simp add: find_task_index_None)
  then have "task_of_id n (ts @ [?x]) = [?x]"
    by (simp add: task_of_id_append task_of_id_absent x)
  moreover have "t_status ?x = JStr (py_lower s)" "t_description ?x = JStr (py_strip d)"
    by (simp_all add: new_task_def)
  moreover have "distinct (map t_id (ts @ [?x]))"
    by (rule distinct_ids_append [OF assms(1) None x])
  moreover have "task_manager_match_loop now ((a, d, s) # ms) ts w c
                 = task_manager_match_loop now ms (ts @ [?x]) (max w n) (c + 1)"
    using None assms(2) by simp
  ultimately show ?thesis by blast
next
  case (Some i)
  note idx = find_task_index_Some [OF Some]
  let ?x = "(ts ! i)\<lparr>t_status := JStr (py_lower s), t_description := JStr (py_strip d),
                     t_timestamp := now\<rparr>"
  have "task_of_id n (ts[i := ?x]) = [?x]"
    using idx by (intro task_of_id_update [OF assms(1)]) simp_all
  moreover have "t_status ?x = JStr (py_lower s)" "t_description ?x = JStr (py_strip d)"
    by simp_all
  moreover have "distinct (map t_id (ts[i := ?x]))"
    using idx by (intro distinct_ids_update [OF assms(1)]) simp_all
  moreover have "task_manager_match_loop now ((a, d, s) # ms) ts w c
                 = task_manager_match_loop now ms (ts[i := ?x]) w (c + 1)"
    using Some assms(2) by simp
  ultimately show ?thesis by blast
qed

lemma tt_loop_last:
  "distinct (map t_id ts) \<Longrightarrow> last_status_for n ms = Some st \<Longrightarrow>
   \<exists>t. task_of_id n (fst (task_tree_match_loop now ms ts c)) = [t] \<and> t_status t = JStr st"
proof (induction ms arbitrary: ts c)
  case Nil
  then show ?case by (simp add: last_status_for_Nil)
next
  case (Cons m ms)
  obtain a d s where m: "m = (a, d, s)" by (cases m)
  show ?case
  proof (cases "last_status_for n ms")
    case (Some st')
    with Cons.prems(2) m have st: "st' = st" by (simp add: last_status_for_Cons)
    have "\<exists>ts' c'. task_tree_match_loop now (m # ms) ts c = task_tree_match_loop now ms ts' c'
                  \<and> distinct (map t_id ts')"
    proof (cases "py_int a")
      case None
      with m Cons.prems(1) show ?thesis by auto
    next
      case (Some k)
      from tt_step_sets [OF Cons.prems(1) Some, of now d s ms c] m show ?thesis by blast
    qed
    then obtain ts' c' where step: "task_tree_match_loop now (m # ms) ts c
        = task_tree_match_loop now ms ts' c'" and d: "distinct (map t_id ts')" by blast
    from Cons.IH [OF d, of c'] Some st show ?thesis unfolding step by simp
  next
    case None
    with Cons.prems(2) m have a: "py_int a = Some n" and st: "st = py_lower s"
      by (auto simp: last_status_for_Cons split: if_splits)
    from None have rest: "n \<notin> set (arrow_ids ms)" by (simp add: last_status_for_None)
    from tt_step_sets [OF Cons.prems(1) a, of now d s ms c] obtain ts' c' t where
      step: "task_tree_match_loop now ((a, d, s) # ms) ts c = task_tree_match_loop now ms ts' c'"
      and t: "task_of_id n ts' = [t]" "t_status t = JStr (py_lower s)" by blast
    from tt_loop_other [OF rest, of now ts' c'] t st show ?thesis unfolding m step by simp
  qed
qed

lemma tm_loop_last:
  "distinct (map t_id ts) \<Longrightarrow> last_status_for n ms = Some st \<Longrightarrow>
   \<exists>t. task_of_id n (fst (task_manager_match_loop now ms ts w c)) = [t] \<and> t_status t = JStr st"
proof (induction ms arbitrary: ts w c)
  case Nil
  then show ?case by (simp add: last_status_for_Nil)
next
  case (Cons m ms)
  obtain a d s where m: "m = (a, d, s)" by (cases m)
  show ?case
  proof (cases "last_status_for n ms")
    case (Some st')
    with Cons.prems(2) m have st: "st' = st" by (simp add: last_status_for_Cons)
    have "\<exists>ts' w' c'. task_manager_match_loop now (m # ms) ts w c
                     = task_manager_match_loop now ms ts' w' c'
                  \<and> distinct (map t_id ts')"
    proof (cases "py_int a")
      case None
      with m Cons.prems(1) show ?thesis by auto
    next
      case (Some k)
      from tm_step_sets [OF Cons.prems(1) Some, of now d s ms w c] m show ?thesis by blast
    qed
    then obtain ts' w' c' where step: "task_manager_match_loop now (m # ms) ts w c
        = task_manager_match_loop now ms ts' w' c'" and d: "distinct (map t_id ts')" by blast
    from Cons.IH [OF d, of w' c'] Some st show ?thesis unfolding step by simp
  next
    case None
    with Cons.prems(2) m have a: "py_int a = Some n" and st: "st = py_lower s"
      by (auto simp: last_status_for_Cons split: if_splits)
    from None have rest: "n \<notin> set (arrow_ids ms)" by (simp add: last_status_for_None)
    from tm_step_sets [OF Cons.prems(1) a, of now d s ms w c] obtain ts' w' c' t where
      step: "task_manager_match_loop now ((a, d, s) # ms) ts w c
             = task_manager_match_loop now ms ts' w' c'"
      and t: "task_of_id n ts' = [t]" "t_status t = JStr (py_lower s)" by blast
    from tm_loop_other [OF rest, of now ts' w' c'] t st show ?thesis unfolding m step by simp
  qed
qed

lemma upd_loop_unnumbered:
  "\<forall>t\<in>set ts. t_id t \<le> w \<Longrightarrow> \<forall>u\<in>set us. explicit_task_id (u_task_id u) = None \<Longrightarrow>
   length (fst (apply_updates now us ts w c)) = length ts + length us"
proof (induction us arbitrary: ts w c)
  case Nil
  then show ?case by simp
next
  case (Cons u us)
  from Cons.prems(2) have r: "resolve_task_id (u_task_id u) w = (w + 1, w + 1)"
    by (simp add: resolve_task_id_eq)
  have "w + 1 \<notin> t_id ` set ts" using Cons.prems(1) by auto
  then have none: "find_task_index ts (w + 1) = None" by (simp add: find_task_index_None)
  from upd_loop_new [OF r none, of now us c] obtain x where x: "t_id x = w + 1"
    and step: "apply_updates now (u # us) ts w c = apply_updates now us (ts @ [x]) (w + 1) (c + 1)"
    by blast
  have "\<forall>t\<in>set (ts @ [x]). t_id t \<le> w + 1" using Cons.prems(1) x by auto
  from Cons.IH [OF this] Cons.prems(2) show ?case unfolding step by simp
qed

lemma tt_extract_distinct:
  "distinct (map t_id (tasks tr)) \<Longrightarrow>
   distinct (map t_id (tasks (fst (task_tree_extract_tasks_from_response now tr s))))"
  by (simp add: task_tree_extract_tasks_from_response_def case_prod_beta distinct_ids_sort
      tt_loop_distinct)

lemma tm_extract_distinct:
  "distinct (map t_id (tasks tr)) \<Longrightarrow>
   distinct (map t_id (tasks (fst (task_manager_extract_tasks_from_response jl now tr s))))"
  by (cases "parsed_arrow_ids s = []")
    (simp_all add: tm_extract_json tm_extract_arrow distinct_ids_sort tm_loop_distinct
      upd_loop_distinct)

lemma tt_extract_last:
  assumes "distinct (map t_id (tasks tr))" and "last_status_for n (findall_tasks s) = Some st"
  shows "\<exists>t. task_of_id n (tasks (fst (task_tree_extract_tasks_from_response now tr s))) = [t]
             \<and> t_status t = JStr st"
proof -
  from tt_loop_last [OF assms, of now 0] obtain t where
    "task_of_id n (fst (task_tree_match_loop now (findall_tasks s) (tasks tr) 0)) = [t]"
    "t_status t = JStr st" by blast
  then show ?thesis
    by (simp add: task_tree_extract_tasks_from_response_def case_prod_beta task_of_id_sort)
qed

lemma tm_extract_last:
  assumes "distinct (map t_id (tasks tr))" and "last_status_for n (findall_tasks s) = Some st"
  shows "\<exists>t. task_of_id n (tasks (fst (task_manager_extract_tasks_from_response jl now tr s))) = [t]
             \<and> t_status t = JStr st"
proof -
  from assms(2) have "n \<in> set (arrow_ids (findall_tasks s))"
    using last_status_for_None [of n "findall_tasks s"] by auto
  then have ne: "parsed_arrow_ids s \<noteq> []" by (auto simp: parsed_arrow_ids_def)
  from tm_loop_last [OF assms, of now "current_task_id tr" 0] obtain t where
    "task_of_id n (fst (task_manager_match_loop now (findall_tasks s) (tasks tr)
        (current_task_id tr) 0)) = [t]"
    "t_status t = JStr st" by blast
  then show ?thesis
    by (simp add: tm_extract_arrow [OF ne] task_of_id_sort)
qed

lemma tm_extract_unnumbered:
  assumes "watermark_bounds tr" and "parsed_arrow_ids s = []"
    and "\<forall>u\<in>set (reports jl s). explicit_task_id (u_task_id u) = None"
  shows "length (tasks (fst (task_manager_extract_tasks_from_response jl now tr s)))
         = length (tasks tr) + length (reports jl s)"
    and "watermark_bounds (fst (task_manager_extract_tasks_from_response jl now tr s))"
proof -
  from assms(1) have b: "\<forall>t\<in>set (tasks tr). t_id t \<le> current_task_id tr"
    by (simp add: watermark_bounds_def)
  from upd_loop_unnumbered [OF b assms(3), of now 0]
  show "length (tasks (fst (task_manager_extract_tasks_from_response jl now tr s)))
         = length (tasks tr) + length (reports jl s)"
    by (simp add: tm_extract_json [OF assms(2)])
  from upd_loop_bound [OF b, of now "reports jl s" 0]
  show "watermark_bounds (fst (task_manager_extract_tasks_from_response jl now tr s))"
    by (simp add: tm_extract_json [OF assms(2)] watermark_bounds_def)
qed

lemma try_lengths_None:
  "\<forall>k\<in>set ks. match_here ic ps (drop k s) = None \<Longrightarrow> try_lengths ic ps s ks = None"
  by (induction ks) simp_all

lemma try_lengths_first:
  "\<forall>k\<in>set ks. match_here ic ps (drop k s) = None \<Longrightarrow>
   match_here ic ps (drop k0 s) = Some g \<Longrightarrow>
   try_lengths ic ps s (ks @ k0 # ks') = Some (take k0 s # g)"
  by (induction ks) simp_all

lemma lit_fail:
  "s = [] \<or> \<not> cmatch ic (Lit l) (hd s) \<Longrightarrow>
   match_here ic (Rep (Lit l) 1 (Some 1) True # ps) s = None"
  by (cases s) (auto simp: Let_def)

lemma hyphen_only: "cmatch ic (Lit 45) c \<longleftrightarrow> c = 45"
  by (auto simp: fold_cp_def split: if_splits)

lemma takeWhile_inside:
  assumes "e \<noteq> []" and "\<not> P (last e)"
  shows "takeWhile P (e @ r) = takeWhile P e" and "length (takeWhile P e) < length e"
proof -
  have "last e \<in> set e" using assms(1) by simp
  with assms(2) have ex: "\<exists>x\<in>set e. \<not> P x" by blast
  from \<open>last e \<in> set e\<close> assms(2) show "takeWhile P (e @ r) = takeWhile P e"
    by (rule takeWhile_append1)
  have "takeWhile P e \<noteq> e" using ex by (metis takeWhile_eq_all_conv)
  then show "length (takeWhile P e) < length e"
    by (metis length_takeWhile_le le_neq_implies_less takeWhile_eq_take take_all_iff linorder_not_less)
qed

lemma separator_not_inside:
  assumes "e \<noteq> []" and "\<not> py_isspace (last e)" and "45 \<notin> set e"
  shows "match_here True (Rep Space 1 None True # Rep (Lit 45) 1 (Some 1) True # ps) (e @ r)
         = None"
proof -
  let ?n = "length (takeWhile py_isspace e)"
  have tw: "takeWhile (cmatch True Space) (e @ r) = takeWhile py_isspace e"
    using takeWhile_inside(1) [of e py_isspace r, OF assms(1,2)]
    by (simp add: cmatch.simps(4) [abs_def])
  have n: "?n < length e" by (rule takeWhile_inside(2) [of e py_isspace, OF assms(1,2)])
  have fail: "match_here True (Rep (Lit 45) 1 (Some 1) True # ps) (drop k (e @ r)) = None"
    if "k \<le> ?n" for k
  proof (rule lit_fail)
    from that n have k: "k < length e" by simp
    then have h: "hd (drop k (e @ r)) = e ! k" by (simp add: hd_drop_conv_nth nth_append)
    have "e ! k \<in> set e" using k by simp
    with assms(3) have "e ! k \<noteq> 45" by auto
    then have "\<not> cmatch True (Lit 45) (e ! k)" unfolding hyphen_only .
    then show "drop k (e @ r) = [] \<or> \<not> cmatch True (Lit 45) (hd (drop k (e @ r)))"
      unfolding h by (rule disjI2)
  qed
  have "\<forall>k\<in>set (candidates True (Rep Space 1 None True) (e @ r)).
          match_here True (Rep (Lit 45) 1 (Some 1) True # ps) (drop k (e @ r)) = None"
  proof
    fix k assume "k \<in> set (candidates True (Rep Space 1 None True) (e @ r))"
    from candidates_Rep [OF this] have "k \<le> ?n" unfolding tw by simp
    then show "match_here True (Rep (Lit 45) 1 (Some 1) True # ps) (drop k (e @ r)) = None"
      by (rule fail)
  qed
  from try_lengths_None [OF this] show ?thesis by (simp only: match_here.simps)
qed

lemma upt_split: "k \<le> n \<Longrightarrow> [0..<Suc n] = [0..<k] @ k # [Suc k..<Suc n]"
proof -
  assume k: "k \<le> n"
  then have "[0..<Suc n] = [0..<k] @ [k..<Suc n]"
    by (metis le_SucI le_add_diff_inverse upt_add_eq_append zero_le)
  also have "[k..<Suc n] = k # [Suc k..<Suc n]"
    using k by (simp add: upt_conv_Cons del: upt_Suc)
  finally show ?thesis .
qed

lemma lazy_description:
  assumes "10 \<notin> set d"
    and "\<forall>k<length d. match_here True ps (drop k d @ r) = None"
    and "match_here True ps r = Some g"
  shows "match_here True (Rep Dot 0 None False # ps) (d @ r) = Some (d # g)"
proof -
  let ?n = "length (takeWhile (cmatch True Dot) (d @ r))"
  have "takeWhile (cmatch True Dot) (d @ r) = d @ takeWhile (cmatch True Dot) r"
    using assms(1) by (intro takeWhile_append2) auto
  then have n: "length d \<le> ?n" by simp
  have c: "candidates True (Rep Dot 0 None False) (d @ r)
           = [0..<length d] @ length d # [Suc (length d)..<Suc ?n]"
    using upt_split [OF n] by (simp add: Let_def del: upt_Suc)
  have none: "\<forall>k\<in>set [0..<length d]. match_here True ps (drop k (d @ r)) = None"
    using assms(2) by simp
  have some: "match_here True ps (drop (length d) (d @ r)) = Some g"
    using assms(3) by simp
  from try_lengths_first [OF none some] show ?thesis
    by (simp only: match_here.simps c) simp
qed

lemma status_word_cases:
  "w \<in> set status_words \<Longrightarrow>
   w = ustr ''completed'' \<or> w = ustr ''in-progress'' \<or> w = ustr ''failed'' \<or> w = ustr ''pending''"
  by (simp add: status_words_def)

lemma status_word_lower: "w \<in> set status_words \<Longrightarrow> py_lower w = w"
  by (auto dest!: status_word_cases simp: eval_defs)

lemma separator_match:
  assumes "w \<in> set status_words"
  shows "match_here True
           [Rep Space 1 None True, Rep (Lit 45) 1 (Some 1) True, Rep Space 1 None True,
            Words [ustr ''completed'', ustr ''in-progress'', ustr ''failed'', ustr ''pending'']]
           (32 # 45 # 32 # w)
         = Some [[32], [45], [32], w]"
  using status_word_cases [OF assms]
  by (elim disjE) (simp_all add: eval_defs py_isspace_def)

lemma description_match:
  assumes "plain_description d" and "w \<in> set status_words"
  shows "match_here True
           [Rep Dot 0 None False, Rep Space 1 None True, Rep (Lit 45) 1 (Some 1) True,
            Rep Space 1 None True,
            Words [ustr ''completed'', ustr ''in-progress'', ustr ''failed'', ustr ''pending'']]
           (d @ 32 # 45 # 32 # w)
         = Some [d, [32], [45], [32], w]"
proof (rule lazy_description)
  from assms(1) show "10 \<notin> set d" by (simp add: plain_description_def)
  show "match_here True
           [Rep Space 1 None True, Rep (Lit 45) 1 (Some 1) True, Rep Space 1 None True,
            Words [ustr ''completed'', ustr ''in-progress'', ustr ''failed'', ustr ''pending'']]
           (32 # 45 # 32 # w)
         = Some [[32], [45], [32], w]"
    by (rule separator_match [OF assms(2)])
  show "\<forall>k<length d. match_here True
           [Rep Space 1 None True, Rep (Lit 45) 1 (Some 1) True, Rep Space 1 None True,
            Words [ustr ''completed'', ustr ''in-progress'', ustr ''failed'', ustr ''pending'']]
           (drop k d @ 32 # 45 # 32 # w) = None"
  proof (intro allI impI)
    fix k assume k: "k < length d"
    show "match_here True
           [Rep Space 1 None True, Rep (Lit 45) 1 (Some 1) True, Rep Space 1 None True,
            Words [ustr ''completed'', ustr ''in-progress'', ustr ''failed'', ustr ''pending'']]
           (drop k d @ 32 # 45 # 32 # w) = None"
    proof (rule separator_not_inside)
      show "drop k d \<noteq> []" using k by simp
      show "\<not> py_isspace (last (drop k d))"
        using k assms(1) by (simp add: plain_description_def)
      show "45 \<notin> set (drop k d)"
        using assms(1) by (auto simp: plain_description_def dest: in_set_dropD)
    qed
  qed
qed

lemma lit_step:
  "cmatch ic (Lit l) c \<Longrightarrow> match_here ic ps s = Some g \<Longrightarrow>
   match_here ic (Rep (Lit l) 1 (Some 1) True # ps) (c # s) = Some ([c] # g)"
  by (simp add: Let_def)

lemma star_space_step:
  "py_isspace c \<Longrightarrow> s = [] \<or> \<not> py_isspace (hd s) \<Longrightarrow> match_here ic ps s = Some g \<Longrightarrow>
   match_here ic (Rep Space 0 None True # ps) (c # s) = Some ([c] # g)"
  by (cases s) (auto simp: Let_def)

lemma plus_digit_step:
  "is_decimal c \<Longrightarrow> s = [] \<or> \<not> is_decimal (hd s) \<Longrightarrow> match_here ic ps s = Some g \<Longrightarrow>
   match_here ic (Rep Digit 1 None True # ps) (c # s) = Some ([c] # g)"
  by (cases s) (auto simp: Let_def)

lemma directive_match:
  assumes "plain_description d" and "w \<in> set status_words"
  shows "match_here True task_pattern (arrow_directive d w)
         = Some [[8594], [32], [84], [97], [115], [107], [58], [32], [49], [46], [32],
                 d, [32], [45], [32], w]"
proof -
  have ne: "d \<noteq> []" and sp: "\<not> py_isspace (hd d)"
    using assms(1) by (simp_all add: plain_description_def)
  have "match_here True
     [Rep (Lit 8594) 1 (Some 1) True, Rep Space 0 None True, Rep (Lit 84) 1 (Some 1) True,
      Rep (Lit 97) 1 (Some 1) True, Rep (Lit 115) 1 (Some 1) True, Rep (Lit 107) 1 (Some 1) True,
      Rep (Lit 58) 1 (Some 1) True, Rep Space 0 None True, Rep Digit 1 None True,
      Rep (Lit 46) 1 (Some 1) True, Rep Space 0 None True, Rep Dot 0 None False,
      Rep Space 1 None True, Rep (Lit 45) 1 (Some 1) True, Rep Space 1 None True,
      Words [ustr ''completed'', ustr ''in-progress'', ustr ''failed'', ustr ''pending'']]
     (8594 # 32 # 84 # 97 # 115 # 107 # 58 # 32 # 49 # 46 # 32 # (d @ 32 # 45 # 32 # w))
     = Some [[8594], [32], [84], [97], [115], [107], [58], [32], [49], [46], [32],
             d, [32], [45], [32], w]"
    using ne sp
    by (intro lit_step star_space_step plus_digit_step description_match [OF assms])
      (simp_all add: fold_cp_def py_isspace_def is_decimal_ascii)
  then show ?thesis
    by (simp add: task_pattern_def pattern_defs arrow_directive_def ustr_def)
qed

lemma plain_strip: "plain_description d \<Longrightarrow> py_strip d = d"
  by (rule py_strip_id) (simp_all add: plain_description_def)

lemma no_directive_in_empty: "match_here True task_pattern [] = None"
  by (simp add: task_pattern_def pattern_defs)

lemma directive_read:
  assumes "plain_description d" and "w \<in> set status_words"
  shows "findall_tasks (arrow_directive d w) = [(ustr ''1'', d, w)]"
proof -
  let ?g = "[[8594], [32], [84], [97], [115], [107], [58], [32], [49], [46], [32],
             d, [32], [45], [32], w]"
  define R where "R = ustr '' Task: 1. '' @ d @ ustr '' - '' @ w"
  have T: "arrow_directive d w = 8594 # R" by (simp add: arrow_directive_def R_def)
  have m: "match_here True task_pattern (8594 # R) = Some ?g"
    using directive_match [OF assms] unfolding T .
  have c: "length (concat ?g) = length (8594 # R)" by (simp add: R_def ustr_def)
  have n: "concat ?g \<noteq> []" by simp
  have "re_findall True task_pattern (8594 # R)
        = ?g # re_findall True task_pattern (drop (length (concat ?g)) (8594 # R))"
    by (subst re_findall.simps(2)) (simp only: m option.case n if_False)
  also have "\<dots> = [?g]"
    by (simp only: c drop_all order_refl re_findall.simps(1) no_directive_in_empty option.case)
  finally show ?thesis
    by (simp add: findall_tasks_def T ustr_def)
qed

lemma one_is_one: "py_int (ustr ''1'') = Some 1"
  by (simp add: py_int_def int_space_def py_isspace_def eval_defs)

lemma status_words_mem:
  "ustr ''in-progress'' \<in> set status_words" "ustr ''completed'' \<in> set status_words"
  by (simp_all add: status_words_def)

lemma tt_directive_scenario:
  assumes "plain_description d1" and "plain_description d2"
  shows "map (\<lambda>t. (t_id t, t_description t, t_status t))
       (tasks (fst (task_tree_extract_tasks_from_response now2
          (fst (task_tree_extract_tasks_from_response now1 (TaskTree_init title path)
                 (arrow_directive d1 (ustr ''in-progress''))))
          (arrow_directive d2 (ustr ''completed'')))))
     = [(1, JStr d2, JStr (ustr ''completed''))]"
  by (simp add: task_tree_extract_tasks_from_response_def TaskTree_init_def new_task_def
      directive_read [OF assms(1) status_words_mem(1)]
      directive_read [OF assms(2) status_words_mem(2)]
      one_is_one plain_strip [OF assms(1)] plain_strip [OF assms(2)]
      status_word_lower [OF status_words_mem(1)] status_word_lower [OF status_words_mem(2)])

lemma tm_directive_scenario:
  assumes "plain_description d1" and "plain_description d2"
  shows "map (\<lambda>t. (t_id t, t_description t, t_status t))
       (tasks (fst (task_manager_extract_tasks_from_response jl now2
          (fst (task_manager_extract_tasks_from_response jl now1 (TaskTree_init title path)
                 (arrow_directive d1 (ustr ''in-progress''))))
          (arrow_directive d2 (ustr ''completed'')))))
     = [(1, JStr d2, JStr (ustr ''completed''))]"
  by (simp add: task_manager_extract_tasks_from_response_def TaskTree_init_def new_task_def
      directive_read [OF assms(1) status_words_mem(1)]
      directive_read [OF assms(2) status_words_mem(2)]
      one_is_one plain_strip [OF assms(1)] plain_strip [OF assms(2)]
      status_word_lower [OF status_words_mem(1)] status_word_lower [OF status_words_mem(2)])

lemma plain_recon: "plain_description (ustr ''Find the flag'')"
  by (simp add: plain_description_def ustr_def py_isspace_def)

text \<open>
  Claim C4, as amended.  Extracting a second time from the same response leaves the number of
  tasks unchanged: always in \<open>task_tree.py\<close>, and in \<open>task_manager.py\<close> when the response has
  an arrow directive or every structured update names its task id.  A structured update without
  a task id takes the number after the watermark: on a tree whose watermark bounds its ids,
  which stays so, a response with such updates only adds one task for each of them, at every
  call.  On a tree with no id twice, no call makes an id appear twice, and after a call the
  task a directive names is there once, with the status of the last directive for it; so after
  one call and a later one whose last directive for task 1 reads completed, the tree has
  exactly one task with id 1, and its status is completed.  A directive
  \<^verbatim>\<open>\<rightarrow> Task: 1. d - w\<close> with a plain description \<open>d\<close> is read as task 1, \<open>d\<close> and \<open>w\<close>; after
  such a directive with the status in-progress and a later one with the status completed, the
  tree, empty at the start, holds task 1 and no other, with the second description and the
  status completed.
\<close>

theorem extraction_idempotent:
  "length (tasks (fst (task_tree_extract_tasks_from_response now2
      (fst (task_tree_extract_tasks_from_response now1 tr s)) s)))
   = length (tasks (fst (task_tree_extract_tasks_from_response now1 tr s)))
   \<and> (parsed_arrow_ids s \<noteq> []
        \<or> (\<forall>u\<in>set (reports jl s). explicit_task_id (u_task_id u) \<noteq> None) \<longrightarrow>
      length (tasks (fst (task_manager_extract_tasks_from_response jl now2
        (fst (task_manager_extract_tasks_from_response jl now1 tr s)) s)))
      = length (tasks (fst (task_manager_extract_tasks_from_response jl now1 tr s))))
   \<and> (watermark_bounds tr \<and> parsed_arrow_ids s = []
        \<and> (\<forall>u\<in>set (reports jl s). explicit_task_id (u_task_id u) = None) \<longrightarrow>
      length (tasks (fst (task_manager_extract_tasks_from_response jl now1 tr s)))
      = length (tasks tr) + length (reports jl s)
      \<and> watermark_bounds (fst (task_manager_extract_tasks_from_response jl now1 tr s)))
   \<and> (distinct (map t_id (tasks tr)) \<longrightarrow>
        distinct (map t_id (tasks (fst (task_tree_extract_tasks_from_response now1 tr s))))
        \<and> distinct (map t_id (tasks (fst (task_manager_extract_tasks_from_response jl now1 tr s))))
        \<and> (\<forall>n st. last_status_for n (findall_tasks s) = Some st \<longrightarrow>
              (\<exists>t. task_of_id n (tasks (fst (task_tree_extract_tasks_from_response now1 tr s)))
                     = [t] \<and> t_status t = JStr st)
              \<and> (\<exists>t. task_of_id n
                        (tasks (fst (task_manager_extract_tasks_from_response jl now1 tr s)))
                     = [t] \<and> t_status t = JStr st))
        \<and> (last_status_for 1 (findall_tasks s2) = Some (ustr ''completed'') \<longrightarrow>
              (\<exists>t. task_of_id 1 (tasks (fst (task_tree_extract_tasks_from_response now2
                        (fst (task_tree_extract_tasks_from_response now1 tr s1)) s2))) = [t]
                   \<and> t_status t = JStr (ustr ''completed''))
              \<and> (\<exists>t. task_of_id 1 (tasks (fst (task_manager_extract_tasks_from_response jl now2
                        (fst (task_manager_extract_tasks_from_response jl now1 tr s1)) s2))) = [t]
                   \<and> t_status t = JStr (ustr ''completed''))))
   \<and> (plain_description d \<and> w \<in> set status_words \<longrightarrow>
        findall_tasks (arrow_directive d w) = [(ustr ''1'', d, w)]
        \<and> last_status_for 1 (findall_tasks (arrow_directive d w)) = Some w)
   \<and> (plain_description da \<and> plain_description db \<longrightarrow>
        map (\<lambda>t. (t_id t, t_description t, t_status t))
          (tasks (fst (task_tree_extract_tasks_from_response now2
             (fst (task_tree_extract_tasks_from_response now1 (TaskTree_init title path)
                    (arrow_directive da (ustr ''in-progress''))))
             (arrow_directive db (ustr ''completed'')))))
        = [(1, JStr db, JStr (ustr ''completed''))]
        \<and> map (\<lambda>t. (t_id t, t_description t, t_status t))
            (tasks (fst (task_manager_extract_tasks_from_response jl now2
               (fst (task_manager_extract_tasks_from_response jl now1 (TaskTree_init title path)
                      (arrow_directive da (ustr ''in-progress''))))
               (arrow_directive db (ustr ''completed'')))))
          = [(1, JStr db, JStr (ustr ''completed''))])"
proof -
  have c1: "length (tasks (fst (task_tree_extract_tasks_from_response now2
      (fst (task_tree_extract_tasks_from_response now1 tr s)) s)))
   = length (tasks (fst (task_tree_extract_tasks_from_response now1 tr s)))"
    by (rule tt_idempotent)
  have c2: "parsed_arrow_ids s \<noteq> []
        \<or> (\<forall>u\<in>set (reports jl s). explicit_task_id (u_task_id u) \<noteq> None) \<longrightarrow>
      length (tasks (fst (task_manager_extract_tasks_from_response jl now2
        (fst (task_manager_extract_tasks_from_response jl now1 tr s)) s)))
      = length (tasks (fst (task_manager_extract_tasks_from_response jl now1 tr s)))"
    using tm_idempotent [of s jl now2 now1 tr] by blast
  have c3: "watermark_bounds tr \<and> parsed_arrow_ids s = []
        \<and> (\<forall>u\<in>set (reports jl s). explicit_task_id (u_task_id u) = None) \<longrightarrow>
      length (tasks (fst (task_manager_extract_tasks_from_response jl now1 tr s)))
      = length (tasks tr) + length (reports jl s)
      \<and> watermark_bounds (fst (task_manager_extract_tasks_from_response jl now1 tr s))"
    using tm_extract_unnumbered [of tr s jl now1] by blast
  have c4: "distinct (map t_id (tasks (fst (task_tree_extract_tasks_from_response now1 tr s))))
        \<and> distinct (map t_id (tasks (fst (task_manager_extract_tasks_from_response jl now1 tr s))))
        \<and> (\<forall>n st. last_status_for n (findall_tasks s) = Some st \<longrightarrow>
              (\<exists>t. task_of_id n (tasks (fst (task_tree_extract_tasks_from_response now1 tr s)))
                     = [t] \<and> t_status t = JStr st)
              \<and> (\<exists>t. task_of_id n
                        (tasks (fst (task_manager_extract_tasks_from_response jl now1 tr s)))
                     = [t] \<and> t_status t = JStr st))
        \<and> (last_status_for 1 (findall_tasks s2) = Some (ustr ''completed'') \<longrightarrow>
              (\<exists>t. task_of_id 1 (tasks (fst (task_tree_extract_tasks_from_response now2
                        (fst (task_tree_extract_tasks_from_response now1 tr s1)) s2))) = [t]
                   \<and> t_status t = JStr (ustr ''completed''))
              \<and> (\<exists>t. task_of_id 1 (tasks (fst (task_manager_extract_tasks_from_response jl now2
                        (fst (task_manager_extract_tasks_from_response jl now1 tr s1)) s2))) = [t]
                   \<and> t_status t = JStr (ustr ''completed'')))"
    if d: "distinct (map t_id (tasks tr))"
  proof (intro conjI allI impI)
    show "distinct (map t_id (tasks (fst (task_tree_extract_tasks_from_response now1 tr s))))"
      by (rule tt_extract_distinct [OF d])
    show "distinct (map t_id (tasks (fst (task_manager_extract_tasks_from_response jl now1 tr s))))"
      by (rule tm_extract_distinct [OF d])
  next
    fix n st assume l: "last_status_for n (findall_tasks s) = Some st"
    show "\<exists>t. task_of_id n (tasks (fst (task_tree_extract_tasks_from_response now1 tr s)))
                     = [t] \<and> t_status t = JStr st"
      by (rule tt_extract_last [OF d l])
    show "\<exists>t. task_of_id n
                        (tasks (fst (task_manager_extract_tasks_from_response jl now1 tr s)))
                     = [t] \<and> t_status t = JStr st"
      by (rule tm_extract_last [OF d l])
  next
    assume l: "last_status_for 1 (findall_tasks s2) = Some (ustr ''completed'')"
    show "\<exists>t. task_of_id 1 (tasks (fst (task_tree_extract_tasks_from_response now2
                        (fst (task_tree_extract_tasks_from_response now1 tr s1)) s2))) = [t]
                   \<and> t_status t = JStr (ustr ''completed'')"
      by (rule tt_extract_last [OF tt_extract_distinct [OF d] l])
    show "\<exists>t. task_of_id 1 (tasks (fst (task_manager_extract_tasks_from_response jl now2
                        (fst (task_manager_extract_tasks_from_response jl now1 tr s1)) s2))) = [t]
                   \<and> t_status t = JStr (ustr ''completed'')"
      by (rule tm_extract_last [OF tm_extract_distinct [OF d] l])
  qed
  have c5: "findall_tasks (arrow_directive d w) = [(ustr ''1'', d, w)]
        \<and> last_status_for 1 (findall_tasks (arrow_directive d w)) = Some w"
    if "plain_description d \<and> w \<in> set status_words"
    using that directive_read [of d w] status_word_lower [of w]
    by (simp add: last_status_for_def one_is_one)
  have c6: "map (\<lambda>t. (t_id t, t_description t, t_status t))
          (tasks (fst (task_tree_extract_tasks_from_response now2
             (fst (task_tree_extract_tasks_from_response now1 (TaskTree_init title path)
                    (arrow_directive da (ustr ''in-progress''))))
             (arrow_directive db (ustr ''completed'')))))
        = [(1, JStr db, JStr (ustr ''completed''))]
        \<and> map (\<lambda>t. (t_id t, t_description t, t_status t))
            (tasks (fst (task_manager_extract_tasks_from_response jl now2
               (fst (task_manager_extract_tasks_from_response jl now1 (TaskTree_init title path)
                      (arrow_directive da (ustr ''in-progress''))))
               (arrow_directive db (ustr ''completed'')))))
          = [(1, JStr db, JStr (ustr ''completed''))]"
    if "plain_description da \<and> plain_description db"
    using that tt_directive_scenario [of da db now2 now1 title path]
      tm_directive_scenario [of da db jl now2 now1 title path] by blast
  from c1 c2 c3 c4 c5 c6 show ?thesis by blast
qed

theorem extraction_idempotent_witness:
  "distinct (map t_id (tasks (TaskTree_init (ustr ''C'') (ustr ''p''))))
   \<and> last_status_for 1 (findall_tasks directive_completed) = Some (ustr ''completed'')
   \<and> map (\<lambda>t. (t_id t, t_status t))
       (tasks (fst (task_manager_extract_tasks_from_response decode_example (ustr ''t2'')
          (fst (task_manager_extract_tasks_from_response decode_example (ustr ''t1'')
                 (TaskTree_init (ustr ''C'') (ustr ''p'')) directive_in_progress))
          directive_completed)))
     = [(1, JStr (ustr ''completed''))]
   \<and> map (\<lambda>t. (t_id t, t_status t))
       (tasks (fst (task_tree_extract_tasks_from_response (ustr ''t2'')
          (fst (task_tree_extract_tasks_from_response (ustr ''t1'')
                 (TaskTree_init (ustr ''C'') (ustr ''p'')) directive_in_progress))
          directive_completed)))
     = [(1, JStr (ustr ''completed''))]
   \<and> (\<exists>t. task_of_id 1
          (tasks (fst (task_manager_extract_tasks_from_response decode_example (ustr ''t2'')
             (fst (task_manager_extract_tasks_from_response decode_example (ustr ''t1'')
                    (TaskTree_init (ustr ''C'') (ustr ''p'')) directive_in_progress))
             directive_completed))) = [t]
        \<and> t_status t = JStr (ustr ''completed''))
   \<and> parsed_arrow_ids directive_in_progress = [1]
   \<and> length (tasks (fst (task_manager_extract_tasks_from_response decode_example (ustr ''t2'')
        (fst (task_manager_extract_tasks_from_response decode_example (ustr ''t1'') loaded_tree
               directive_in_progress)) directive_in_progress)))
     = length (tasks (fst (task_manager_extract_tasks_from_response decode_example (ustr ''t1'')
         loaded_tree directive_in_progress)))
   \<and> watermark_bounds (TaskTree_init (ustr ''C'') (ustr ''p''))
   \<and> parsed_arrow_ids report_without_id = []
   \<and> map (\<lambda>u. explicit_task_id (u_task_id u)) (reports decode_example report_without_id) = [None]
   \<and> length (tasks (fst (task_manager_extract_tasks_from_response decode_example (ustr ''t1'')
        (TaskTree_init (ustr ''C'') (ustr ''p'')) report_without_id))) = 1
   \<and> plain_description (ustr ''Find the flag'')
   \<and> plain_description (ustr ''Read flag.txt'')
   \<and> ustr ''failed'' \<in> set status_words
   \<and> findall_tasks (arrow_directive (ustr ''Find the flag'') (ustr ''failed''))
     = [(ustr ''1'', ustr ''Find the flag'', ustr ''failed'')]
   \<and> map (\<lambda>t. (t_id t, t_description t, t_status t))
        (tasks (fst (task_manager_extract_tasks_from_response decode_example (ustr ''t2'')
           (fst (task_manager_extract_tasks_from_response decode_example (ustr ''t1'')
                  (TaskTree_init (ustr ''C'') (ustr ''p''))
                  (arrow_directive (ustr ''Find the flag'') (ustr ''in-progress''))))
           (arrow_directive (ustr ''Read flag.txt'') (ustr ''completed'')))))
     = [(1, JStr (ustr ''Read flag.txt''), JStr (ustr ''completed''))]"
proof -
  let ?init = "TaskTree_init (ustr ''C'') (ustr ''p'')"
  have d: "distinct (map t_id (tasks ?init))" by (simp add: TaskTree_init_def)
  have l: "last_status_for 1 (findall_tasks directive_completed) = Some (ustr ''completed'')"
    by (simp add: last_status_for_def tree_eval pattern_defs eval_defs)
  have e1: "map (\<lambda>t. (t_id t, t_status t))
       (tasks (fst (task_manager_extract_tasks_from_response decode_example (ustr ''t2'')
          (fst (task_manager_extract_tasks_from_response decode_example (ustr ''t1'')
                 ?init directive_in_progress))
          directive_completed)))
     = [(1, JStr (ustr ''completed''))]"
    by (rule scenario_task_manager)
  have e2: "map (\<lambda>t. (t_id t, t_status t))
       (tasks (fst (task_tree_extract_tasks_from_response (ustr ''t2'')
          (fst (task_tree_extract_tasks_from_response (ustr ''t1'')
                 ?init directive_in_progress))
          directive_completed)))
     = [(1, JStr (ustr ''completed''))]"
    by (rule scenario_task_tree)
  have p: "parsed_arrow_ids directive_in_progress = [1]"
    by (simp add: tree_eval pattern_defs eval_defs)
  have w: "watermark_bounds ?init" by (simp add: watermark_bounds_def TaskTree_init_def)
  have q: "parsed_arrow_ids report_without_id = []"
    by (simp add: tree_eval pattern_defs eval_defs)
  have r: "reports decode_example report_without_id
           = [\<lparr>u_task_id = JNull, u_description = Some (JStr (ustr ''x'')),
               u_status = Some (JStr (ustr ''pending'')), u_parent_id = JNull,
               u_details = JNull\<rparr>]"
    by (simp add: reports_def tree_eval pattern_defs eval_defs)
  have pl: "plain_description (ustr ''Find the flag'')" "plain_description (ustr ''Read flag.txt'')"
    by (simp_all add: plain_description_def ustr_def py_isspace_def)
  have sw: "ustr ''failed'' \<in> set status_words" by (simp add: status_words_def)
  note inst = extraction_idempotent [of "ustr ''t2''" "ustr ''t1''" _ _ decode_example]
  from inst [of ?init directive_in_progress directive_completed directive_in_progress] d l
  have a: "\<exists>t. task_of_id 1
          (tasks (fst (task_manager_extract_tasks_from_response decode_example (ustr ''t2'')
             (fst (task_manager_extract_tasks_from_response decode_example (ustr ''t1'')
                    ?init directive_in_progress))
             directive_completed))) = [t]
        \<and> t_status t = JStr (ustr ''completed'')"
    by blast
  from inst [of loaded_tree directive_in_progress] p
  have b: "length (tasks (fst (task_manager_extract_tasks_from_response decode_example (ustr ''t2'')
        (fst (task_manager_extract_tasks_from_response decode_example (ustr ''t1'') loaded_tree
               directive_in_progress)) directive_in_progress)))
     = length (tasks (fst (task_manager_extract_tasks_from_response decode_example (ustr ''t1'')
         loaded_tree directive_in_progress)))"
    by simp
  from inst [of ?init report_without_id] w q r
  have c: "length (tasks (fst (task_manager_extract_tasks_from_response decode_example (ustr ''t1'')
        ?init report_without_id))) = 1"
    by (simp add: TaskTree_init_def)
  have r': "map (\<lambda>u. explicit_task_id (u_task_id u)) (reports decode_example report_without_id)
            = [None]"
    by (simp add: r)
  from inst [of _ _ _ _ "ustr ''Find the flag''" "ustr ''failed''"] pl sw
  have f: "findall_tasks (arrow_directive (ustr ''Find the flag'') (ustr ''failed''))
     = [(ustr ''1'', ustr ''Find the flag'', ustr ''failed'')]"
    by blast
  from inst [of _ _ _ _ _ _ "ustr ''Find the flag''" "ustr ''Read flag.txt''" "ustr ''C''"
      "ustr ''p''"] pl
  have g: "map (\<lambda>t. (t_id t, t_description t, t_status t))
        (tasks (fst (task_manager_extract_tasks_from_response decode_example (ustr ''t2'')
           (fst (task_manager_extract_tasks_from_response decode_example (ustr ''t1'')
                  ?init
                  (arrow_directive (ustr ''Find the flag'') (ustr ''in-progress''))))
           (arrow_directive (ustr ''Read flag.txt'') (ustr ''completed'')))))
     = [(1, JStr (ustr ''Read flag.txt''), JStr (ustr ''completed''))]"
    by blast
  from d l e1 e2 a p b w q r' c pl sw f g show ?thesis by blast
qed

text \<open>
  Claim C4 as stated fails for a structured update without a task id: the task manager gives
  it the next number at every call, so the same directive adds a task each time.
\<close>

theorem extraction_repeats_unnumbered_update:
  "length (tasks (fst (task_manager_extract_tasks_from_response decode_example (ustr ''t1'')
        (TaskTree_init (ustr ''C'') (ustr ''p'')) report_without_id))) = 1
   \<and> length (tasks (fst (task_manager_extract_tasks_from_response decode_example (ustr ''t2'')
        (fst (task_manager_extract_tasks_from_response decode_example (ustr ''t1'')
               (TaskTree_init (ustr ''C'') (ustr ''p'')) report_without_id))
        report_without_id))) = 2"
  by (simp add: tree_eval pattern_defs eval_defs)

text \<open>
  The pattern takes as status the first status word that follows a hyphen between spaces, also
  when the description goes on after it: the directive for task 1 with the description
  \<open>Retry - failed earlier\<close> and the status completed is read as the description \<open>Retry\<close>
  with the status failed.  The comment above the pattern in \<open>task_tree.py\<close> says that a
  hyphen in the description is not to end it.
\<close>

lemma directive_status_in_description:
  "findall_tasks directive_with_status_word = [(ustr ''1'', ustr ''Retry'', ustr ''failed'')]
   \<and> map (\<lambda>t. (t_id t, t_description t, t_status t))
        (tasks (fst (task_tree_extract_tasks_from_response (ustr ''t1'')
           (TaskTree_init (ustr ''C'') (ustr ''p'')) directive_with_status_word)))
     = [(1, JStr (ustr ''Retry''), JStr (ustr ''failed''))]"
  by (simp add: directive_with_status_word_def tree_eval pattern_defs eval_defs)

text \<open>
  Claim C7, as amended.  \<open>task_tree.py\<close> never changes \<open>current_task_id\<close>.  In
  \<open>task_manager.py\<close> the watermark never decreases, and on a tree whose watermark bounds the
  ids of its tasks it bounds them again after the call, together with every task id parsed from
  the response, in either notation.
\<close>

theorem watermark_bounds_parsed_ids:
  "current_task_id (fst (task_tree_extract_tasks_from_response now tr s)) = current_task_id tr
   \<and> current_task_id tr
       \<le> current_task_id (fst (task_manager_extract_tasks_from_response jl now tr s))
   \<and> (watermark_bounds tr \<longrightarrow>
        watermark_bounds (fst (task_manager_extract_tasks_from_response jl now tr s))
        \<and> (\<forall>n\<in>set (parsed_task_ids jl s).
              n \<le> current_task_id (fst (task_manager_extract_tasks_from_response jl now tr s))))"
proof -
  let ?tr' = "fst (task_manager_extract_tasks_from_response jl now tr s)"
  have mono: "current_task_id tr \<le> current_task_id ?tr'"
    by (cases "parsed_arrow_ids s = []")
      (simp_all add: tm_extract_json tm_extract_arrow tm_loop_mono upd_loop_mono)
  have inv: "watermark_bounds ?tr'" and ids: "\<forall>n\<in>set (parsed_task_ids jl s). n \<le> current_task_id ?tr'"
    if b: "watermark_bounds tr"
  proof -
    from b have b': "\<forall>t\<in>set (tasks tr). t_id t \<le> current_task_id tr"
      by (simp add: watermark_bounds_def)
    show inv: "watermark_bounds ?tr'"
    proof (cases "parsed_arrow_ids s = []")
      case True
      from upd_loop_bound [OF b', of now "reports jl s" 0] show ?thesis
        by (simp add: tm_extract_json [OF True] watermark_bounds_def)
    next
      case False
      from tm_loop_bound [OF b', of now "findall_tasks s" 0] show ?thesis
        by (simp add: tm_extract_arrow [OF False] watermark_bounds_def)
    qed
    have "set (parsed_task_ids jl s) \<subseteq> t_id ` set (tasks ?tr')"
    proof (cases "parsed_arrow_ids s = []")
      case True
      from upd_loop_ids [of "tasks tr" "reports jl s" now "current_task_id tr" 0] show ?thesis
        by (simp add: tm_extract_json [OF True] parsed_task_ids_def True)
    next
      case False
      from tm_loop_ids [of now "findall_tasks s" "tasks tr" "current_task_id tr" 0] show ?thesis
        by (simp add: tm_extract_arrow [OF False] parsed_task_ids_def False)
          (simp add: parsed_arrow_ids_def)
    qed
    with inv show "\<forall>n\<in>set (parsed_task_ids jl s). n \<le> current_task_id ?tr'"
      by (auto simp: watermark_bounds_def)
  qed
  from mono inv ids show ?thesis by (simp add: tt_loop_watermark)
qed

theorem watermark_bounds_parsed_ids_witness:
  "watermark_bounds (TaskTree_init (ustr ''C'') (ustr ''p''))
   \<and> parsed_task_ids decode_example directive_in_progress = [1]
   \<and> 1 \<le> current_task_id (fst (task_manager_extract_tasks_from_response decode_example
             (ustr ''t1'') (TaskTree_init (ustr ''C'') (ustr ''p'')) directive_in_progress))"
proof -
  have h: "watermark_bounds (TaskTree_init (ustr ''C'') (ustr ''p''))"
    by (simp add: watermark_bounds_def TaskTree_init_def)
  have p: "parsed_task_ids decode_example directive_in_progress = [1]"
    by (simp add: parsed_task_ids_def tree_eval pattern_defs eval_defs)
  from watermark_bounds_parsed_ids [of "ustr ''t1''" "TaskTree_init (ustr ''C'') (ustr ''p'')"
      directive_in_progress decode_example] h p
  show ?thesis by simp
qed

text \<open>
  Claim C7 as stated fails: \<open>task_tree.py\<close> parses task 1 and leaves the watermark at 0, and
  \<open>task_manager.py\<close> does the same when task 1 is already in a tree whose watermark is 0.
\<close>

theorem watermark_not_raised:
  "parsed_arrow_ids directive_in_progress = [1]
   \<and> current_task_id (fst (task_tree_extract_tasks_from_response (ustr ''t1'')
        (TaskTree_init (ustr ''C'') (ustr ''p'')) directive_in_progress)) = 0
   \<and> current_task_id (fst (task_manager_extract_tasks_from_response decode_example (ustr ''t1'')
        loaded_tree directive_in_progress)) = 0"
  by (simp add: tree_eval pattern_defs eval_defs)

subsection \<open>The context optimizer\<close>

lemma startswith_iff: "startswith s p \<longleftrightarrow> (\<exists>b. s = p @ b)"
  by (induction s p rule: startswith.induct) auto

lemma py_in_iff: "py_in needle hay \<longleftrightarrow> (\<exists>a b. hay = a @ needle @ b)"
proof (induction hay)
  case Nil
  then show ?case by auto
next
  case (Cons c s)
  show ?case
  proof
    assume "py_in needle (c # s)"
    then consider "startswith (c # s) needle" | "py_in needle s" by auto
    then show "\<exists>a b. c # s = a @ needle @ b"
    proof cases
      case 1
      then obtain b where "c # s = needle @ b" by (auto simp: startswith_iff)
      then have "c # s = [] @ needle @ b" by simp
      then show ?thesis by blast
    next
      case 2
      with Cons obtain a b where "s = a @ needle @ b" by auto
      then have "c # s = (c # a) @ needle @ b" by simp
      then show ?thesis by blast
    qed
  next
    assume "\<exists>a b. c # s = a @ needle @ b"
    then obtain a b where ab: "c # s = a @ needle @ b" by auto
    show "py_in needle (c # s)"
    proof (cases a)
      case Nil
      with ab have "startswith (c # s) needle" by (auto simp: startswith_iff)
      then show ?thesis by simp
    next
      case (Cons x a')
      with ab have "s = a' @ needle @ b" by simp
      with Cons.IH have "py_in needle s" by blast
      then show ?thesis by simp
    qed
  qed
qed

lemma any_word_in_iff: "any_word_in ws s \<longleftrightarrow> (\<exists>w\<in>set ws. py_in w s)"
  by (induction ws) auto

lemma empty_result_not_notable:
  "re_search True flag_pattern [] = None" "\<not> any_word_in error_words (py_lower [])"
  by (simp_all add: flag_pattern_def error_words_def pattern_defs eval_defs)

lemma results_notable_iff:
  "results_notable rs \<longleftrightarrow>
     (\<exists>r\<in>set rs. re_search True flag_pattern r \<noteq> None \<or> any_word_in error_words (py_lower r))"
proof (induction rs)
  case Nil
  then show ?case by simp
next
  case (Cons r rs)
  show ?case
  proof (cases "r = []")
    case True
    with Cons empty_result_not_notable show ?thesis by simp
  next
    case False
    with Cons show ?thesis by auto
  qed
qed

text \<open>
  Claim C5.  \<open>should_send_full_context\<close> holds exactly when the round is a multiple of the
  interval, which is 5, or there are at most 3 tasks, or some recent result matches the flag
  pattern or contains, in lower case, one of the words error, failed, exception, traceback.
  With 2 tasks the context of round 7 is of kind \<open>full\<close>.
\<close>

theorem full_context_rule:
  "(should_send_full_context round task_count recent_results \<longleftrightarrow>
      round mod full_context_interval = 0 \<or> task_count \<le> 3
      \<or> (\<exists>r\<in>set recent_results.
            re_search True flag_pattern r \<noteq> None
            \<or> (\<exists>w\<in>set [ustr ''error'', ustr ''failed'', ustr ''exception'', ustr ''traceback''].
                  py_in w (py_lower r))))
   \<and> full_context_interval = 5
   \<and> (length (tasks tr) = 2 \<longrightarrow>
        context_type (get_optimized_task_context (Some tr) 7 recent_results) = ustr ''full'')"
proof -
  have a: "should_send_full_context round task_count recent_results \<longleftrightarrow>
      round mod full_context_interval = 0 \<or> task_count \<le> 3
      \<or> (\<exists>r\<in>set recent_results.
            re_search True flag_pattern r \<noteq> None
            \<or> (\<exists>w\<in>set [ustr ''error'', ustr ''failed'', ustr ''exception'', ustr ''traceback''].
                  py_in w (py_lower r)))"
    unfolding should_send_full_context_def results_notable_iff any_word_in_iff error_words_def
    by auto
  have b: "context_type (get_optimized_task_context (Some tr) 7 recent_results) = ustr ''full''"
    if "length (tasks tr) = 2"
    using that by (simp add: get_optimized_task_context_def should_send_full_context_def Let_def)
  from a b show ?thesis by (simp add: full_context_interval_def)
qed

theorem full_context_rule_witness:
  "length (tasks tr0) = 2
   \<and> context_type (get_optimized_task_context (Some tr0) 7 []) = ustr ''full''
   \<and> should_send_full_context 7 5 [ustr ''Traceback (most recent call last)'']
   \<and> \<not> should_send_full_context 7 5 [ustr ''all good'']"
proof -
  have h: "length (tasks tr0) = 2" by (simp add: tr0_def)
  from full_context_rule [of 7 5 "[]" tr0] h
  have f: "context_type (get_optimized_task_context (Some tr0) 7 []) = ustr ''full''"
    by blast
  have e: "should_send_full_context 7 5 [ustr ''Traceback (most recent call last)'']"
    by (simp add: should_send_full_context_def full_context_interval_def error_words_def
        flag_pattern_def pattern_defs eval_defs)
  have n: "\<not> should_send_full_context 7 5 [ustr ''all good'']"
    by (simp add: should_send_full_context_def full_context_interval_def error_words_def
        flag_pattern_def pattern_defs eval_defs)
  from h f e n show ?thesis by blast
qed

text \<open>
  Claim C6, as amended.  The context is of kind empty, recent or full.  For the kinds recent
  and full the token estimate is the length of the content divided by 4; for the kind empty,
  which is returned when there is no tree, it is the constant 20.
\<close>

theorem token_estimate_rule:
  "(context_type (get_optimized_task_context tree round recent_results)
      \<noteq> ustr ''empty'' \<longrightarrow>
      token_estimate (get_optimized_task_context tree round recent_results)
      = length (content (get_optimized_task_context tree round recent_results)) div 4)
   \<and> (context_type (get_optimized_task_context tree round recent_results)
        = ustr ''empty'' \<longrightarrow>
      tree = None
      \<and> token_estimate (get_optimized_task_context tree round recent_results) = 20)
   \<and> context_type (get_optimized_task_context tree round recent_results)
       \<in> {ustr ''empty'', ustr ''recent'', ustr ''full''}"
  by (cases tree) (simp_all add: get_optimized_task_context_def Let_def ustr_def)

theorem token_estimate_rule_witness:
  "context_type (get_optimized_task_context (Some tr0) 7 []) \<noteq> ustr ''empty''
   \<and> token_estimate (get_optimized_task_context (Some tr0) 7 [])
     = length (content (get_optimized_task_context (Some tr0) 7 [])) div 4
   \<and> context_type (get_optimized_task_context None 7 []) = ustr ''empty''
   \<and> token_estimate (get_optimized_task_context None 7 []) = 20"
proof -
  have a: "context_type (get_optimized_task_context (Some tr0) 7 []) \<noteq> ustr ''empty''"
    by (simp add: get_optimized_task_context_def Let_def ustr_def)
  have b: "context_type (get_optimized_task_context None 7 []) = ustr ''empty''"
    by (simp add: get_optimized_task_context_def)
  from token_estimate_rule [of "Some tr0" 7 "[]"] token_estimate_rule [of None 7 "[]"] a b
  show ?thesis by simp
qed

text \<open>
  Claim C6 as stated fails for the kind empty: the content has 21 characters, a quarter of
  which is 5, and the estimate is 20.
\<close>

theorem token_estimate_of_empty_context:
  "context_type (get_optimized_task_context None 1 []) = ustr ''empty''
   \<and> token_estimate (get_optimized_task_context None 1 []) = 20
   \<and> length (content (get_optimized_task_context None 1 [])) div 4 = 5"
  by (simp add: get_optimized_task_context_def ustr_def)

subsection \<open>The round\<close>













subsection \<open>The size guard\<close>







subsection \<open>The latest tool result in the next prompt\<close>

lemma py_in_length: "py_in needle hay \<Longrightarrow> length needle \<le> length hay"
  by (auto simp: py_in_iff)

lemma filtered_latest:
  assumes "trs \<noteq> []" and "sendable (last trs)"
  shows "filtered_results (get_continue_prompt st trs fl) \<noteq> []"
    and "hd (filtered_results (get_continue_prompt st trs fl)) = last trs"
  using assms by (simp_all add: get_continue_prompt_def Let_def)

lemma filtered_not_latest:
  assumes "startswith (last trs) success_prefix"
  shows "last trs \<notin> set (filtered_results (get_continue_prompt st trs fl))"
  using assms by (auto simp: get_continue_prompt_def Let_def sendable_def)

text \<open>
  The guard of \<open>get_continue_prompt\<close>: whenever the most recent tool result is not blank and
  does not begin with \<open>{"success"\<close>, the results handed to the next prompt begin with that
  result in full, whatever the kind of the context; the list \<open>truncated_results\<close> of the
  optimizer itself is empty in the kind recent.
\<close>

theorem latest_result_sent:
  "(trs \<noteq> [] \<and> py_strip (last trs) \<noteq> [] \<and> \<not> startswith (last trs) success_prefix \<longrightarrow>
      filtered_results (get_continue_prompt st trs fl) \<noteq> []
      \<and> hd (filtered_results (get_continue_prompt st trs fl)) = last trs
      \<and> last trs \<in> set (filtered_results (get_continue_prompt st trs fl)))
   \<and> (context_type (get_optimized_task_context tree n trs) = ustr ''recent'' \<longrightarrow>
        truncated_results (get_optimized_task_context tree n trs) = [])"
proof -
  have a: "filtered_results (get_continue_prompt st trs fl) \<noteq> []
      \<and> hd (filtered_results (get_continue_prompt st trs fl)) = last trs
      \<and> last trs \<in> set (filtered_results (get_continue_prompt st trs fl))"
    if "trs \<noteq> []" "py_strip (last trs) \<noteq> []" "\<not> startswith (last trs) success_prefix"
  proof -
    from that have "sendable (last trs)" by (auto simp: sendable_def py_strip_def)
    from filtered_latest [OF that(1) this, of st fl] show ?thesis
      by (metis list.set_sel(1))
  qed
  have b: "truncated_results (get_optimized_task_context tree n trs) = []"
    if "context_type (get_optimized_task_context tree n trs) = ustr ''recent''"
    using that by (cases tree) (auto simp: get_optimized_task_context_def Let_def ustr_def split: if_splits)
  from a b show ?thesis by blast
qed

theorem latest_result_sent_witness:
  "[ustr ''short'', ustr ''the latest result''] \<noteq> []
   \<and> py_strip (last [ustr ''short'', ustr ''the latest result'']) \<noteq> []
   \<and> \<not> startswith (last [ustr ''short'', ustr ''the latest result'']) success_prefix
   \<and> hd (filtered_results (get_continue_prompt example_agent
            [ustr ''short'', ustr ''the latest result''] False)) = ustr ''the latest result''"
proof -
  have h: "py_strip (last [ustr ''short'', ustr ''the latest result'']) \<noteq> []"
    "\<not> startswith (last [ustr ''short'', ustr ''the latest result'']) success_prefix"
    by (simp_all add: py_strip_def py_isspace_def success_prefix_def quoted_def ustr_def)
  from latest_result_sent [of "[ustr ''short'', ustr ''the latest result'']" example_agent False]
    h
  show ?thesis by simp
qed

lemma long_result_facts:
  "length long_result = 610" "startswith long_result success_prefix"
  by (simp_all add: long_result_def success_prefix_def quoted_def ustr_def startswith_iff)

lemma stored_tree_tasks:
  "tasks stored_tree =
     [\<lparr>t_id = 1, t_description = JStr (ustr ''Challenge analysis and solving''),
       t_status = JStr (ustr ''in-progress''), t_timestamp = ustr ''t'',
       t_subtasks = [\<lparr>s_id = IdInt 1, s_tool = ustr ''python'', s_input = ustr ''x'',
                      s_result = take 500 long_result @ ustr ''...'',
                      s_timestamp = ustr ''t''\<rparr>],
       t_parent_id = JNull, t_details = JNull\<rparr>]"
  by (simp add: stored_tree_def task_manager_add_tool_result_def TaskTree_init_def new_task_def
      add_subtask_def ellipsis_def Let_def long_result_facts ustr_def)

lemma stored_tree_title: "challenge_title stored_tree = ustr ''C''"
  by (simp add: stored_tree_def task_manager_add_tool_result_def TaskTree_init_def Let_def
      ustr_def)

lemma stored_display_short: "length (get_tree_display stored_tree) < 610"
  by (simp add: get_tree_display_def stored_tree_tasks stored_tree_title display_task_lines_def
      display_subtask_lines_def display_icon_def str_of_id_def py_str_int_def py_str_nat.simps
      ellipsis_def Let_def long_result_facts ustr_def)

lemma search_needs_lit:
  assumes "re_search ic ps s = Some g" and "Rep (Lit l) (Suc n) hi gr \<in> set ps"
    and "\<forall>c. cmatch ic (Lit l) c \<longrightarrow> c = l"
  shows "l \<in> set s"
  using assms(1)
proof (induction s)
  case Nil
  then have "match_here ic ps [] = Some g" by simp
  from match_needs_lit [OF this assms(2,3)] show ?case .
next
  case (Cons c s)
  show ?case
  proof (cases "match_here ic ps (c # s)")
    case None
    with Cons show ?thesis by simp
  next
    case (Some g')
    from match_needs_lit [OF this assms(2,3)] show ?thesis .
  qed
qed

lemma py_in_set: "py_in needle hay \<Longrightarrow> set needle \<subseteq> set hay"
  by (auto simp: py_in_iff)

lemma long_result_set: "set long_result = {123, 34, 115, 117, 99, 101, 97}"
  by (auto simp: long_result_def success_prefix_def quoted_def ustr_def)

lemma long_result_not_notable: "\<not> results_notable [long_result]"
proof -
  have b: "Rep (Lit 125) (Suc 0) (Some 1) True \<in> set flag_pattern"
    by (simp add: flag_pattern_def pattern_defs)
  have "re_search True flag_pattern long_result = None"
  proof (cases "re_search True flag_pattern long_result")
    case (Some g)
    from search_needs_lit [OF Some b lit_close_brace] show ?thesis
      by (simp add: long_result_set)
  qed simp
  moreover have "\<not> py_in w (py_lower long_result)" if "w \<in> set error_words" for w
  proof
    assume a: "py_in w (py_lower long_result)"
    have "py_lower long_result = map ascii_lower long_result"
      by (rule py_lower_ascii) (simp add: long_result_set)
    with a have "set w \<subseteq> ascii_lower ` set long_result"
      using py_in_set [of w "py_lower long_result"] by simp
    with that show False
      by (auto simp: error_words_def long_result_set ascii_lower_def ustr_def)
  qed
  ultimately show ?thesis by (auto simp: any_word_in_iff)
qed

lemma busy_tree_tasks:
  "tasks busy_tree =
     [new_task 1 (ustr ''a'') (ustr ''completed'') (ustr ''t''),
      new_task 2 (ustr ''b'') (ustr ''completed'') (ustr ''t''),
      new_task 3 (ustr ''c'') (ustr ''completed'') (ustr ''t''),
      (new_task 4 (ustr ''d'') (ustr ''in-progress'') (ustr ''t''))
        \<lparr>t_subtasks := [\<lparr>s_id = IdInt 1, s_tool = ustr ''python'', s_input = ustr ''x'',
                          s_result = take 500 long_result @ ustr ''...'',
                          s_timestamp = ustr ''t''\<rparr>]\<rparr>]"
  by (simp add: busy_tree_def task_manager_add_tool_result_def new_task_def
      add_subtask_def ellipsis_def Let_def long_result_facts ustr_def)

lemma busy_kind:
  "context_type (get_optimized_task_context (Some busy_tree) 7 [long_result]) = ustr ''recent''"
  using long_result_not_notable
  by (simp add: get_optimized_task_context_def should_send_full_context_def busy_tree_tasks
      full_context_interval_def Let_def)

lemma busy_summary_short: "length (get_recent_summary busy_tree) < 610"
  by (simp add: get_recent_summary_def busy_tree_tasks recent_task_lines_def new_task_def
      get_status_icon_def max_recent_tasks_def py_str_int_def py_str_nat.simps
      ellipsis_def Let_def long_result_facts ustr_def)

lemma busy_dropped:
  "context_type (get_optimized_task_context (task_tree busy_agent)
        (current_round busy_agent) [long_result]) = ustr ''recent''
   \<and> long_result \<notin> set (filtered_results (get_continue_prompt busy_agent [long_result] False))
   \<and> \<not> py_in long_result (task_summary (get_continue_prompt busy_agent [long_result] False))"
proof -
  have k: "context_type (get_optimized_task_context (task_tree busy_agent)
        (current_round busy_agent) [long_result]) = ustr ''recent''"
    using busy_kind by (simp add: busy_agent_def CTFAgent_init_def)
  have f: "long_result \<notin> set (filtered_results (get_continue_prompt busy_agent [long_result] False))"
    using filtered_not_latest [of "[long_result]" busy_agent False] long_result_facts(2)
    by simp
  have "content (get_optimized_task_context (Some busy_tree) 7 [long_result])
        = get_recent_summary busy_tree"
    using long_result_not_notable
    by (simp add: get_optimized_task_context_def should_send_full_context_def busy_tree_tasks
        full_context_interval_def Let_def)
  then have s: "task_summary (get_continue_prompt busy_agent [long_result] False)
           = get_recent_summary busy_tree"
    by (simp add: get_continue_prompt_def busy_agent_def CTFAgent_init_def Let_def)
  have c: "\<not> py_in long_result (task_summary (get_continue_prompt busy_agent [long_result] False))"
    unfolding s using py_in_length [of long_result "get_recent_summary busy_tree"]
      busy_summary_short long_result_facts(1) by auto
  from k f c show ?thesis by blast
qed

lemma take80: "take 80 long_result = success_prefix @ replicate 70 97"
  by (simp add: long_result_def success_prefix_def quoted_def ustr_def)

lemma strip_take80: "py_strip (take 80 long_result) = take 80 long_result"
  unfolding take80
  by (rule py_strip_id) (simp_all add: success_prefix_def quoted_def ustr_def py_isspace_def)

lemma strip_long: "py_strip long_result = long_result"
  by (rule py_strip_id) (simp_all add: long_result_def success_prefix_def quoted_def ustr_def py_isspace_def)

lemma stored_truncated:
  "get_truncated_important_results stored_tree [long_result] = [long_result]"
proof -
  have p: "py_in (take 80 long_result) (take 500 long_result @ ustr ''...'')"
  proof -
    have "take 500 long_result @ ustr ''...''
          = [] @ take 80 long_result @ (take 420 (drop 80 long_result) @ ustr ''...'')"
      by (simp add: take_add [symmetric])
    then show ?thesis unfolding py_in_iff by blast
  qed
  have n: "long_result \<noteq> []" using long_result_facts(1) by auto
  show ?thesis
    using p long_result_facts(1) n
    by (simp add: get_truncated_important_results_def is_truncated_in_tree_def stored_tree_tasks
        strip_take80 strip_long Let_def ustr_def)
qed

lemma example_truncated:
  "truncated_results (get_optimized_task_context (task_tree example_agent)
        (current_round example_agent) [long_result]) = [long_result]"
  using stored_truncated
  by (simp add: example_agent_def CTFAgent_init_def get_optimized_task_context_def
      should_send_full_context_def stored_tree_tasks Let_def)

text \<open>
  Claim C1.  The code breaks the claim, and the comments of \<open>get_continue_prompt\<close> and of the
  optimizer that promise the latest result in every case, for a result that begins with
  \<open>{"success"\<close>.  The result has 610 characters and the tree holds its first 500 with an
  ellipsis.  In a context of kind full (one task, round 1) the optimizer returns the result
  among its truncated results, and \<open>get_continue_prompt\<close> drops it: its guard refuses the
  result, and the filter against duplicates removes it from the optimizer's list.  In a context
  of kind recent (four tasks, round 7) the optimizer returns no result and the same guard
  refuses it.  In both the result is neither in the task summary nor among the results handed
  to the next prompt.
\<close>

theorem latest_result_dropped:
  "length long_result = 610
   \<and> length (py_strip long_result) > 80
   \<and> map s_result (concat (map t_subtasks (tasks stored_tree)))
     = [take 500 long_result @ ustr ''...'']
   \<and> context_type (get_optimized_task_context (task_tree example_agent)
        (current_round example_agent) [long_result]) = ustr ''full''
   \<and> truncated_results (get_optimized_task_context (task_tree example_agent)
        (current_round example_agent) [long_result]) = [long_result]
   \<and> long_result \<notin> set (filtered_results (get_continue_prompt example_agent [long_result] False))
   \<and> \<not> py_in long_result (task_summary (get_continue_prompt example_agent [long_result] False))
   \<and> map s_result (concat (map t_subtasks (tasks busy_tree)))
     = [take 500 long_result @ ustr ''...'']
   \<and> context_type (get_optimized_task_context (task_tree busy_agent)
        (current_round busy_agent) [long_result]) = ustr ''recent''
   \<and> truncated_results (get_optimized_task_context (task_tree busy_agent)
        (current_round busy_agent) [long_result]) = []
   \<and> long_result \<notin> set (filtered_results (get_continue_prompt busy_agent [long_result] False))
   \<and> \<not> py_in long_result (task_summary (get_continue_prompt busy_agent [long_result] False))"
proof -
  have k: "context_type (get_optimized_task_context (task_tree example_agent)
        (current_round example_agent) [long_result]) = ustr ''full''"
    by (simp add: example_agent_def CTFAgent_init_def get_optimized_task_context_def
        should_send_full_context_def stored_tree_tasks Let_def)
  have f: "long_result \<notin> set (filtered_results (get_continue_prompt example_agent [long_result] False))"
    using filtered_not_latest [of "[long_result]" example_agent False] long_result_facts(2)
    by simp
  have s: "task_summary (get_continue_prompt example_agent [long_result] False)
           = get_tree_display stored_tree"
    by (simp add: get_continue_prompt_def example_agent_def CTFAgent_init_def
        get_optimized_task_context_def should_send_full_context_def stored_tree_tasks Let_def)
  have c: "\<not> py_in long_result (task_summary (get_continue_prompt example_agent [long_result] False))"
    unfolding s using py_in_length [of long_result "get_tree_display stored_tree"]
      stored_display_short long_result_facts(1) by auto
  have t: "map s_result (concat (map t_subtasks (tasks stored_tree)))
           = [take 500 long_result @ ustr ''...'']"
    "map s_result (concat (map t_subtasks (tasks busy_tree)))
           = [take 500 long_result @ ustr ''...'']"
    by (simp_all add: stored_tree_tasks busy_tree_tasks new_task_def)
  have l: "length (py_strip long_result) > 80"
    by (simp add: strip_long long_result_facts(1))
  have e: "truncated_results (get_optimized_task_context (task_tree busy_agent)
        (current_round busy_agent) [long_result]) = []"
    using busy_kind
    by (simp add: busy_agent_def CTFAgent_init_def get_optimized_task_context_def Let_def
        ustr_def split: if_splits)
  from long_result_facts(1) l k example_truncated f c t e busy_dropped show ?thesis by blast
qed

end
